theory Spec2Isabelle
  imports Complex_Main "HOL-Library.Log_Nat"
begin

section \<open>Sneaker drop system: reservations, purchases and the expiration job\<close>

text \<open>
  A shallow embedding of the stock-reservation core of the server:
  \<^item> \<^verbatim>\<open>models/Drop.js\<close>, \<^verbatim>\<open>models/Reservation.js\<close> (the second half of
    \<^verbatim>\<open>src/models/Purchase.js\<close>), \<^verbatim>\<open>models/Purchase.js\<close>: the rows, their validators, hooks
    and instance methods;
  \<^item> \<^verbatim>\<open>controllers/dropController.js\<close>: \<^verbatim>\<open>createDrop\<close>, \<^verbatim>\<open>updateDrop\<close>;
  \<^item> \<^verbatim>\<open>controllers/reservationController.js\<close> (\<^verbatim>\<open>src/unnamed/part_001\<close>): \<^verbatim>\<open>reserveItem\<close>,
    \<^verbatim>\<open>cancelReservation\<close>;
  \<^item> \<^verbatim>\<open>controllers/purchaseController.js\<close>: \<^verbatim>\<open>completePurchase\<close>;
  \<^item> \<^verbatim>\<open>utils/cronJobs.js\<close> (\<^verbatim>\<open>src/unnamed/part_006\<close>): \<^verbatim>\<open>processExpiredReservations\<close>.

  Conventions of the embedding.
  \<^item> Timestamps are integers (milliseconds since the epoch). Every handler reads the clock
    once: the value \<open>now\<close> it is given stands for each \<^verbatim>\<open>new Date()\<close> and
    \<^verbatim>\<open>Date.now()\<close> of one request, and is a time the clock can show (a valid date).
  \<^item> A handler is a function on the database: it returns the response, the database
    after the transaction ended (the old one after a rollback) and the log of what it
    did to the transaction and the socket, in program order. \<^verbatim>\<open>reserveItem\<close> is in two
    parts, before and from its row lock, so that two requests can be interleaved there.
  \<^item> A \<^verbatim>\<open>res.status(n).json({success: false, message})\<close> is \<open>Rejected n message\<close>; an
    exception that reaches \<^verbatim>\<open>catch\<close> is \<open>Thrown message\<close>, or \<open>Invalid messages\<close> when it
    is a validation error of Sequelize. The database itself does not fail (no lock
    timeout, no lost connection), and \<^verbatim>\<open>io.emit\<close> returns normally.
  \<^item> Prices are \<^verbatim>\<open>DECIMAL(10, 2)\<close> columns and are counted in hundredths. The catalogue
    fields \<^verbatim>\<open>description\<close> and \<^verbatim>\<open>image_url\<close>, which no handler below reads, are left
    out: the requests modelled are the ones that do not send them. Names are ASCII.
\<close>

subsection \<open>Rows\<close>

record drop =
  name :: string
  price :: int
  stock :: int
  initial_stock :: int
  drop_start_time :: "int option"

datatype reservation_status = Active | Expired | Completed

record reservation =
  res_id :: nat
  user_id :: nat
  drop_id :: nat
  status :: reservation_status
  expires_at :: int

record purchase =
  purchase_id :: nat
  purchase_user_id :: nat
  purchase_drop_id :: nat
  purchase_price :: int
  purchased_at :: int

text \<open>
  The tables. \<^verbatim>\<open>drops\<close> is only ever read by primary key, so it is a map from the id;
  \<^verbatim>\<open>reservations\<close> is searched by other columns, so it is the list of its rows in
  insertion order. The counters are the \<^verbatim>\<open>AUTO_INCREMENT\<close> values.
\<close>

record database =
  drops :: "nat \<rightharpoonup> drop"
  next_drop_id :: nat
  reservations :: "reservation list"
  next_reservation_id :: nat
  purchases :: "purchase list"
  next_purchase_id :: nat

definition empty_database :: database where
  "empty_database =
     \<lparr>drops = Map.empty, next_drop_id = 1, reservations = [], next_reservation_id = 1,
      purchases = [], next_purchase_id = 1\<rparr>"

subsection \<open>Dates\<close>

text \<open>
  The time value of a JavaScript \<^verbatim>\<open>Date\<close> lies within 8.64e15 ms of the epoch; a
  \<^verbatim>\<open>new Date(v)\<close> beyond that is an invalid date, which the \<^verbatim>\<open>isDate\<close> validator refuses.
\<close>

definition valid_date :: "int \<Rightarrow> bool" where
  "valid_date t = (- 8640000000000000 \<le> t \<and> t \<le> 8640000000000000)"

text \<open>
  The date columns are declared \<^verbatim>\<open>DataTypes.DATE\<close> with no precision, under the
  \<^verbatim>\<open>mysql\<close> dialect of \<^verbatim>\<open>config/database.js\<close>: the column is a \<^verbatim>\<open>DATETIME\<close>, and
  Sequelize writes a date into a statement, as a value to store or as an operand of a
  \<^verbatim>\<open>where\<close> clause on such a column, in the format \<^verbatim>\<open>YYYY-MM-DD HH:mm:ss\<close>. What reaches
  the table is the time cut to the whole second; the instance in the handler keeps the
  date it was given.
\<close>

definition DATETIME :: "int \<Rightarrow> int" where
  "DATETIME t = t - t mod 1000"

subsection \<open>JavaScript numbers\<close>

text \<open>
  \<^verbatim>\<open>getStockPercentage\<close> divides and multiplies JavaScript numbers, which are IEEE 754
  doubles. A finite double is the rational it denotes; \<open>fl\<close> rounds a rational to the
  nearest double, ties to the even significand (53 bits). The exponent is left
  unbounded: for the 32-bit \<^verbatim>\<open>INTEGER\<close> columns of a drop no quotient or product leaves
  the normal range. The sign of zero is not kept.
\<close>

datatype jsnumber = Num rat | NaN | PosInfinity | NegInfinity

definition exponent_of :: "rat \<Rightarrow> int" where
  "exponent_of x =
     (let (a, b) = quotient_of \<bar>x\<bar>; e = bitlen a - bitlen b
      in if 2 powi e \<le> \<bar>x\<bar> then e else e - 1)"

definition round_half_even :: "rat \<Rightarrow> int" where
  "round_half_even m =
     (let f = \<lfloor>m\<rfloor>; r = m - of_int f
      in if r < 1 / 2 then f else if 1 / 2 < r then f + 1 else if even f then f else f + 1)"

definition fl :: "rat \<Rightarrow> rat" where
  "fl x =
     (if x = 0 then 0
      else let u = 2 powi (exponent_of x - 52)
           in of_int (round_half_even (x / u)) * u)"

fun js_divide :: "jsnumber \<Rightarrow> jsnumber \<Rightarrow> jsnumber" where
  "js_divide (Num x) (Num y) =
     (if y = 0 then (if x = 0 then NaN else if 0 < x then PosInfinity else NegInfinity)
      else Num (fl (x / y)))"
| "js_divide NaN _ = NaN"
| "js_divide _ NaN = NaN"
| "js_divide (Num x) _ = Num 0"
| "js_divide PosInfinity (Num y) = (if 0 \<le> y then PosInfinity else NegInfinity)"
| "js_divide NegInfinity (Num y) = (if 0 \<le> y then NegInfinity else PosInfinity)"
| "js_divide _ _ = NaN"

fun js_times :: "jsnumber \<Rightarrow> jsnumber \<Rightarrow> jsnumber" where
  "js_times (Num x) (Num y) = Num (fl (x * y))"
| "js_times NaN _ = NaN"
| "js_times _ NaN = NaN"
| "js_times (Num x) PosInfinity =
     (if x = 0 then NaN else if 0 < x then PosInfinity else NegInfinity)"
| "js_times (Num x) NegInfinity =
     (if x = 0 then NaN else if 0 < x then NegInfinity else PosInfinity)"
| "js_times PosInfinity (Num y) =
     (if y = 0 then NaN else if 0 < y then PosInfinity else NegInfinity)"
| "js_times NegInfinity (Num y) =
     (if y = 0 then NaN else if 0 < y then NegInfinity else PosInfinity)"
| "js_times PosInfinity PosInfinity = PosInfinity"
| "js_times NegInfinity NegInfinity = PosInfinity"
| "js_times _ _ = NegInfinity"

text \<open>\<^verbatim>\<open>Math.round\<close>: the nearest integer, a tie going up.\<close>

fun Math_round :: "jsnumber \<Rightarrow> jsnumber" where
  "Math_round (Num x) = Num (of_int \<lfloor>x + 1 / 2\<rfloor>)"
| "Math_round y = y"

subsection \<open>Instance methods of a drop\<close>

definition isAvailable :: "drop \<Rightarrow> bool" where
  "isAvailable d = (0 < stock d)"

definition hasStarted :: "int \<Rightarrow> drop \<Rightarrow> bool" where
  "hasStarted now d = (case drop_start_time d of None \<Rightarrow> True | Some t \<Rightarrow> t \<le> now)"

definition getStockPercentage :: "drop \<Rightarrow> jsnumber" where
  "getStockPercentage d =
     (if initial_stock d = 0 then Num 0
      else Math_round
        (js_times (js_divide (Num (of_int (stock d))) (Num (of_int (initial_stock d))))
           (Num 100)))"

subsection \<open>Responses, socket events and the transaction log\<close>

text \<open>
  \<open>Invalid\<close> is a \<^verbatim>\<open>SequelizeValidationError\<close>; it carries the messages of the validators
  that failed, in the order of the attributes and validators of the model. The error
  handler answers it with status 400.
\<close>

datatype failure = Rejected nat string | Thrown string | Invalid "string list"

datatype event =
    NewDrop nat
  | DropUpdated nat
  | StockUpdate nat int
  | ReservationCreated nat nat nat
  | ReservationCancelled nat nat
  | ReservationExpired nat nat
  | PurchaseCompleted nat nat nat

text \<open>
  What a handler does to its transaction and to the socket, in program order. A write
  outside an explicit transaction (\<^verbatim>\<open>Drop.create\<close>, \<^verbatim>\<open>drop.save()\<close> in the drop
  controller) commits by itself and is logged as \<open>Commit\<close>.
\<close>

datatype action = Commit | Rollback | Emit event

record 'a outcome =
  response :: "failure + 'a"
  db_after :: database
  actions :: "action list"

text \<open>The failures the handlers below answer with.\<close>

definition already_reserved :: failure where
  "already_reserved = Rejected 400 ''You already have an active reservation for this drop''"

definition drop_not_found :: failure where
  "drop_not_found = Rejected 404 ''Drop not found''"

definition drop_not_started :: failure where
  "drop_not_started = Rejected 400 ''Drop has not started yet''"

definition out_of_stock :: failure where
  "out_of_stock = Rejected 400 ''Out of stock''"

definition active_reservation_not_found :: failure where
  "active_reservation_not_found = Rejected 404 ''Active reservation not found''"

definition reservation_expired :: failure where
  "reservation_expired = Rejected 400 ''Reservation has expired''"

definition stock_exceeds_initial :: failure where
  "stock_exceeds_initial = Thrown ''Stock cannot exceed initial stock''"

definition price_of_null :: failure where
  "price_of_null = Thrown ''Cannot read properties of null''"

definition drop_not_found_error :: failure where
  "drop_not_found_error = Thrown ''Drop not found''"

definition invalid_expires_at :: failure where
  "invalid_expires_at = Invalid [''Expires at must be a valid date'']"

definition expires_at_not_future :: failure where
  "expires_at_not_future = Invalid [''Expiration time must be in the future'']"

text \<open>
  \<^verbatim>\<open>if (!transaction.finished) await transaction.rollback(); return res.status(n).json(...)\<close>
  and the \<^verbatim>\<open>catch\<close> block: the database is the one the handler started from.
\<close>

definition rolled_back :: "failure \<Rightarrow> database \<Rightarrow> 'a outcome" where
  "rolled_back e s = \<lparr>response = Inl e, db_after = s, actions = [Rollback]\<rparr>"

definition emits :: "bool \<Rightarrow> event list \<Rightarrow> action list" where
  "emits io es = (if io then map Emit es else [])"

subsection \<open>Validators of a drop\<close>

text \<open>
  \<^verbatim>\<open>notEmpty\<close> refuses a string of white space only (the empty one included); \<^verbatim>\<open>len\<close>
  bounds the length; \<^verbatim>\<open>min 0\<close> refuses a negative number; \<^verbatim>\<open>isDate\<close> refuses an invalid
  date. Each function lists the messages of the validators of its field that fail.
\<close>

definition is_space :: "char \<Rightarrow> bool" where
  "is_space c = (c \<in> set [CHR '' '', CHR 0x09, CHR 0x0A, CHR 0x0B, CHR 0x0C, CHR 0x0D])"

definition notEmpty :: "string \<Rightarrow> bool" where
  "notEmpty str = (\<not> list_all is_space str)"

definition validate_name :: "string \<Rightarrow> string list" where
  "validate_name n =
     (if notEmpty n then [] else [''Drop name cannot be empty'']) @
     (if 3 \<le> length n \<and> length n \<le> 255 then []
      else [''Drop name must be between 3 and 255 characters''])"

definition validate_price :: "int \<Rightarrow> string list" where
  "validate_price p = (if 0 \<le> p then [] else [''Price must be greater than or equal to 0''])"

definition validate_stock :: "int \<Rightarrow> string list" where
  "validate_stock k = (if 0 \<le> k then [] else [''Stock cannot be negative''])"

definition validate_initial_stock :: "int \<Rightarrow> string list" where
  "validate_initial_stock k = (if 0 \<le> k then [] else [''Initial stock cannot be negative''])"

definition validate_drop_start_time :: "int option \<Rightarrow> string list" where
  "validate_drop_start_time t =
     (case t of None \<Rightarrow> [] | Some v \<Rightarrow> if valid_date v then [] else [''Must be a valid date''])"

subsection \<open>Saving a drop\<close>

text \<open>
  \<^verbatim>\<open>drop.save()\<close> on a row read from the table: Sequelize validates the fields that
  changed, then runs the \<^verbatim>\<open>beforeUpdate\<close> hook, then writes. \<^verbatim>\<open>Drop.create\<close> validates
  every field and runs no hook: the model defines none for creation.
\<close>

definition validate_changed :: "drop \<Rightarrow> drop \<Rightarrow> string list" where
  "validate_changed old new =
     (if name new = name old then [] else validate_name (name new)) @
     (if price new = price old then [] else validate_price (price new)) @
     (if stock new = stock old then [] else validate_stock (stock new)) @
     (if drop_start_time new = drop_start_time old then []
      else validate_drop_start_time (drop_start_time new))"

definition validate_new :: "drop \<Rightarrow> string list" where
  "validate_new d =
     validate_name (name d) @ validate_price (price d) @ validate_stock (stock d) @
     validate_initial_stock (initial_stock d) @ validate_drop_start_time (drop_start_time d)"

definition beforeUpdate :: "drop \<Rightarrow> failure option" where
  "beforeUpdate d =
     (if initial_stock d < stock d then Some stock_exceeds_initial
      else None)"

text \<open>The row as the table keeps it: the start time to the whole second.\<close>

definition stored :: "drop \<Rightarrow> drop" where
  "stored d = d\<lparr>drop_start_time := map_option DATETIME (drop_start_time d)\<rparr>"

definition drop_save :: "drop \<Rightarrow> drop \<Rightarrow> failure + drop" where
  "drop_save old new =
     (if validate_changed old new \<noteq> [] then Inl (Invalid (validate_changed old new))
      else case beforeUpdate new of Some e \<Rightarrow> Inl e | None \<Rightarrow> Inr new)"

subsection \<open>The drop controller\<close>

text \<open>
  Both handlers answer with the instance in their hands, which holds the start time as
  it was sent; the table holds the row as \<open>stored\<close>.
\<close>

record create_request =
  c_name :: string
  c_price :: int
  c_stock :: int
  c_initial_stock :: int
  c_drop_start_time :: "int option"

definition createDrop :: "bool \<Rightarrow> create_request \<Rightarrow> database \<Rightarrow> (nat \<times> drop) outcome" where
  "createDrop io req s =
     (let d = \<lparr>name = c_name req, price = c_price req, stock = c_stock req,
                initial_stock = c_initial_stock req,
                drop_start_time = c_drop_start_time req\<rparr>;
          i = next_drop_id s
      in if validate_new d \<noteq> []
         then \<lparr>response = Inl (Invalid (validate_new d)), db_after = s, actions = []\<rparr>
         else \<lparr>response = Inr (i, d),
               db_after = s\<lparr>drops := (drops s)(i \<mapsto> stored d), next_drop_id := Suc i\<rparr>,
               actions = Commit # emits io [NewDrop i]\<rparr>)"

text \<open>
  \<^verbatim>\<open>allowedFields\<close> of \<^verbatim>\<open>updateDrop\<close>: a field of the request that is not
  \<^verbatim>\<open>undefined\<close> is assigned; \<^verbatim>\<open>initial_stock\<close> is not among them.
\<close>

record update_request =
  u_name :: "string option"
  u_price :: "int option"
  u_stock :: "int option"
  u_drop_start_time :: "int option"

definition assign_fields :: "update_request \<Rightarrow> drop \<Rightarrow> drop" where
  "assign_fields updates d =
     d\<lparr>name := (case u_name updates of None \<Rightarrow> name d | Some n \<Rightarrow> n),
       price := (case u_price updates of None \<Rightarrow> price d | Some p \<Rightarrow> p),
       stock := (case u_stock updates of None \<Rightarrow> stock d | Some k \<Rightarrow> k),
       drop_start_time :=
         (case u_drop_start_time updates of None \<Rightarrow> drop_start_time d | Some t \<Rightarrow> Some t)\<rparr>"

definition updateDrop :: "bool \<Rightarrow> nat \<Rightarrow> update_request \<Rightarrow> database \<Rightarrow> drop outcome" where
  "updateDrop io i updates s =
     (case drops s i of
        None \<Rightarrow> \<lparr>response = Inl drop_not_found_error, db_after = s, actions = []\<rparr>
      | Some d \<Rightarrow>
          (case drop_save d (assign_fields updates d) of
             Inl e \<Rightarrow> \<lparr>response = Inl e, db_after = s, actions = []\<rparr>
           | Inr d' \<Rightarrow>
               \<lparr>response = Inr d', db_after = s\<lparr>drops := (drops s)(i \<mapsto> stored d')\<rparr>,
                actions = Commit # emits io [DropUpdated i]\<rparr>))"

subsection \<open>Instance methods of a reservation\<close>

definition isExpired :: "int \<Rightarrow> reservation \<Rightarrow> bool" where
  "isExpired now r = (expires_at r < now \<or> status r = Expired)"

definition isActive :: "int \<Rightarrow> reservation \<Rightarrow> bool" where
  "isActive now r = (status r = Active \<and> \<not> isExpired now r)"

definition getRemainingTime :: "int \<Rightarrow> reservation \<Rightarrow> int" where
  "getRemainingTime now r = max 0 ((expires_at r - now) div 1000)"

text \<open>
  \<^verbatim>\<open>reservation.save()\<close> after an assignment to \<^verbatim>\<open>status\<close>: an
  \<^verbatim>\<open>UPDATE ... SET status = ... WHERE id = ...\<close>.
\<close>

definition set_status :: "nat \<Rightarrow> reservation_status \<Rightarrow> reservation list \<Rightarrow> reservation list" where
  "set_status k st rs = map (\<lambda>r. if res_id r = k then r\<lparr>status := st\<rparr> else r) rs"

subsection \<open>The reservation controller\<close>

text \<open>\<^verbatim>\<open>parseInt(process.env.RESERVATION_DURATION) || 60000\<close>; \<open>None\<close> is \<^verbatim>\<open>NaN\<close>.\<close>

definition expirationDuration :: "int option \<Rightarrow> int" where
  "expirationDuration env =
     (case env of None \<Rightarrow> 60000 | Some n \<Rightarrow> if n = 0 then 60000 else n)"

text \<open>
  The \<^verbatim>\<open>where\<close> clause of the first query of \<^verbatim>\<open>reserveItem\<close>. Its \<^verbatim>\<open>new Date()\<close> is
  an operand on the column \<^verbatim>\<open>expires_at\<close>.
\<close>

definition holds_active :: "int \<Rightarrow> nat \<Rightarrow> nat \<Rightarrow> reservation \<Rightarrow> bool" where
  "holds_active now userId dropId r =
     (user_id r = userId \<and> drop_id r = dropId \<and> status r = Active \<and>
      DATETIME now < expires_at r)"

record reserve_response =
  rr_id :: nat
  rr_drop_id :: nat
  rr_status :: reservation_status
  rr_expires_at :: int
  rr_remaining_seconds :: int
  rr_drop_name :: string
  rr_drop_stock :: int

text \<open>
  The handler from its row lock on (\<^verbatim>\<open>Drop.findOne\<close> with \<^verbatim>\<open>lock: UPDATE\<close>) to its end.
  \<^verbatim>\<open>Reservation.create\<close> runs the validators of \<^verbatim>\<open>expires_at\<close>: \<^verbatim>\<open>isDate\<close>, and \<^verbatim>\<open>isFuture\<close>,
  which refuses a new row whose expiry is not after the clock (and lets an invalid
  date pass: its comparison is false). The row inserted holds the expiry to the whole
  second; the response is made from the instance, which holds \<^verbatim>\<open>expiresAt\<close> itself.
\<close>

definition reserveItem_locked ::
  "int option \<Rightarrow> bool \<Rightarrow> int \<Rightarrow> nat \<Rightarrow> nat \<Rightarrow> database \<Rightarrow> reserve_response outcome" where
  "reserveItem_locked env io now userId dropId s =
     (case drops s dropId of
        None \<Rightarrow> rolled_back drop_not_found s
      | Some d \<Rightarrow>
          if \<not> hasStarted now d then rolled_back drop_not_started s
          else if stock d \<le> 0 then rolled_back out_of_stock s
          else
            (case drop_save d (d\<lparr>stock := stock d - 1\<rparr>) of
               Inl e \<Rightarrow> rolled_back e s
             | Inr d' \<Rightarrow>
                 (let expiresAt = now + expirationDuration env;
                      reservation =
                        \<lparr>res_id = next_reservation_id s, user_id = userId,
                         drop_id = dropId, status = Active, expires_at = expiresAt\<rparr>
                  in if \<not> valid_date expiresAt then rolled_back invalid_expires_at s
                     else if expiresAt \<le> now then rolled_back expires_at_not_future s
                     else
                       \<lparr>response = Inr
                          \<lparr>rr_id = res_id reservation, rr_drop_id = drop_id reservation,
                           rr_status = status reservation,
                           rr_expires_at = expires_at reservation,
                           rr_remaining_seconds = getRemainingTime now reservation,
                           rr_drop_name = name d', rr_drop_stock = stock d'\<rparr>,
                        db_after = s\<lparr>drops := (drops s)(dropId \<mapsto> d'),
                           reservations := reservations s @
                             [reservation\<lparr>expires_at := DATETIME expiresAt\<rparr>],
                           next_reservation_id := Suc (next_reservation_id s)\<rparr>,
                        actions = Commit # emits io
                          [StockUpdate dropId (stock d'),
                           ReservationCreated (res_id reservation) dropId userId]\<rparr>)))"

text \<open>
  The whole handler: the query for an active reservation of the user on the drop, which
  takes no lock, then the rest.
\<close>

definition reserveItem ::
  "int option \<Rightarrow> bool \<Rightarrow> int \<Rightarrow> nat \<Rightarrow> nat \<Rightarrow> database \<Rightarrow> reserve_response outcome" where
  "reserveItem env io now userId dropId s =
     (case find (holds_active now userId dropId) (reservations s) of
        Some existingReservation \<Rightarrow> rolled_back already_reserved s
      | None \<Rightarrow> reserveItem_locked env io now userId dropId s)"

definition cancelReservation :: "bool \<Rightarrow> nat \<Rightarrow> nat \<Rightarrow> database \<Rightarrow> unit outcome" where
  "cancelReservation io userId i s =
     (case find (\<lambda>r. res_id r = i \<and> user_id r = userId \<and> status r = Active) (reservations s) of
        None \<Rightarrow> rolled_back active_reservation_not_found s
      | Some r \<Rightarrow>
          (let rs' = set_status (res_id r) Expired (reservations s)
           in case drops s (drop_id r) of
                None \<Rightarrow>
                  \<lparr>response = Inr (), db_after = s\<lparr>reservations := rs'\<rparr>, actions = [Commit]\<rparr>
              | Some d \<Rightarrow>
                  (case drop_save d (d\<lparr>stock := stock d + 1\<rparr>) of
                     Inl e \<Rightarrow> rolled_back e s
                   | Inr d' \<Rightarrow>
                       \<lparr>response = Inr (),
                        db_after = s\<lparr>reservations := rs', drops := (drops s)(drop_id r \<mapsto> d')\<rparr>,
                        actions = Commit # emits io
                          [StockUpdate (drop_id r) (stock d'),
                           ReservationCancelled (res_id r) (drop_id r)]\<rparr>)))"

subsection \<open>The purchase controller\<close>

text \<open>
  The query joins the drop of the reservation; \<^verbatim>\<open>reservation.drop.price\<close> on a missing
  drop is a \<^verbatim>\<open>TypeError\<close>. \<^verbatim>\<open>Purchase.create\<close> validates \<^verbatim>\<open>price\<close> with \<^verbatim>\<open>min 0\<close>. The row
  inserted holds \<^verbatim>\<open>purchased_at\<close> to the whole second; the response is made from the
  instance.
\<close>

record purchase_response =
  pr_purchase :: purchase
  pr_drop_id :: nat
  pr_drop_name :: string

definition completePurchase ::
  "bool \<Rightarrow> int \<Rightarrow> nat \<Rightarrow> nat \<Rightarrow> database \<Rightarrow> purchase_response outcome" where
  "completePurchase io now userId reservationId s =
     (case find (\<lambda>r. res_id r = reservationId \<and> user_id r = userId \<and> status r = Active)
             (reservations s) of
        None \<Rightarrow> rolled_back active_reservation_not_found s
      | Some r \<Rightarrow>
          if isExpired now r then rolled_back reservation_expired s
          else
            (let rs' = set_status (res_id r) Completed (reservations s)
             in case drops s (drop_id r) of
                  None \<Rightarrow> rolled_back price_of_null s
                | Some d \<Rightarrow>
                    (let p = \<lparr>purchase_id = next_purchase_id s, purchase_user_id = userId,
                              purchase_drop_id = drop_id r, purchase_price = price d,
                              purchased_at = now\<rparr>
                     in if validate_price (price d) \<noteq> []
                        then rolled_back (Invalid (validate_price (price d))) s
                        else
                          \<lparr>response = Inr
                             \<lparr>pr_purchase = p, pr_drop_id = drop_id r, pr_drop_name = name d\<rparr>,
                           db_after = s\<lparr>reservations := rs',
                              purchases := purchases s @ [p\<lparr>purchased_at := DATETIME now\<rparr>],
                              next_purchase_id := Suc (next_purchase_id s)\<rparr>,
                           actions = Commit # emits io
                             [PurchaseCompleted (drop_id r) userId (purchase_id p)]\<rparr>)))"

subsection \<open>The expiration job\<close>

text \<open>
  The \<^verbatim>\<open>where\<close> clause of the job's query. Its \<^verbatim>\<open>now\<close> is an operand on the column
  \<^verbatim>\<open>expires_at\<close>.
\<close>

definition due :: "int \<Rightarrow> reservation \<Rightarrow> bool" where
  "due now r = (status r = Active \<and> expires_at r < DATETIME now)"

text \<open>
  \<^verbatim>\<open>dropStockUpdates\<close> is an object keyed by drop id. \<^verbatim>\<open>Object.entries\<close> lists integer
  keys in ascending order, so the object is the list of its entries in that order, and
  \<open>bump k\<close> is \<^verbatim>\<open>if (!o[k]) o[k] = 0; o[k] += 1\<close>.
\<close>

fun bump :: "nat \<Rightarrow> (nat \<times> nat) list \<Rightarrow> (nat \<times> nat) list" where
  "bump k [] = [(k, 1)]"
| "bump k ((k', c) # kvs) =
     (if k = k' then (k', c + 1) # kvs
      else if k < k' then (k, 1) # (k', c) # kvs
      else (k', c) # bump k kvs)"

text \<open>The first loop: each reservation found is saved as expired and counted.\<close>

fun expire_loop ::
  "reservation list \<Rightarrow> reservation list \<Rightarrow> (nat \<times> nat) list \<Rightarrow>
   reservation list \<times> (nat \<times> nat) list" where
  "expire_loop [] rs upd = (rs, upd)"
| "expire_loop (r # expired) rs upd =
     expire_loop expired (set_status (res_id r) Expired rs) (bump (drop_id r) upd)"

text \<open>
  The second loop: each drop counted is read, credited and saved, and the two events
  are emitted at once, inside the loop. It stops at the first save that throws; the
  events emitted until then are in the log.
\<close>

fun return_stock ::
  "bool \<Rightarrow> (nat \<times> nat) list \<Rightarrow> (nat \<rightharpoonup> drop) \<Rightarrow>
   failure option \<times> (nat \<rightharpoonup> drop) \<times> action list" where
  "return_stock io [] ds = (None, ds, [])"
| "return_stock io ((dropId, stockToReturn) # rest) ds =
     (case ds dropId of
        None \<Rightarrow> return_stock io rest ds
      | Some d \<Rightarrow>
          (case drop_save d (d\<lparr>stock := stock d + int stockToReturn\<rparr>) of
             Inl e \<Rightarrow> (Some e, ds, [])
           | Inr d' \<Rightarrow>
               (case return_stock io rest (ds(dropId \<mapsto> d')) of
                  (res, ds', lg) \<Rightarrow>
                    (res, ds',
                     emits io [StockUpdate dropId (stock d'),
                               ReservationExpired dropId stockToReturn] @ lg))))"

definition processExpiredReservations :: "bool \<Rightarrow> int \<Rightarrow> database \<Rightarrow> unit outcome" where
  "processExpiredReservations io now s =
     (let expiredReservations = filter (due now) (reservations s)
      in if expiredReservations = []
         then \<lparr>response = Inr (), db_after = s, actions = [Commit]\<rparr>
         else
           (case expire_loop expiredReservations (reservations s) [] of
              (rs', dropStockUpdates) \<Rightarrow>
                (case return_stock io dropStockUpdates (drops s) of
                   (Some e, ds', lg) \<Rightarrow>
                     \<lparr>response = Inl e, db_after = s, actions = lg @ [Rollback]\<rparr>
                 | (None, ds', lg) \<Rightarrow>
                     \<lparr>response = Inr (), db_after = s\<lparr>reservations := rs', drops := ds'\<rparr>,
                      actions = lg @ [Commit]\<rparr>)))"

subsection \<open>Sequences of operations\<close>

datatype operation =
    CreateDrop create_request
  | UpdateDrop nat update_request
  | ReserveItem "int option" nat nat
  | CancelReservation nat nat
  | CompletePurchase nat nat
  | ProcessExpiredReservations

fun perform :: "bool \<Rightarrow> int \<Rightarrow> operation \<Rightarrow> database \<Rightarrow> database" where
  "perform io now (CreateDrop req) s = db_after (createDrop io req s)"
| "perform io now (UpdateDrop i updates) s = db_after (updateDrop io i updates s)"
| "perform io now (ReserveItem env userId dropId) s =
     db_after (reserveItem env io now userId dropId s)"
| "perform io now (CancelReservation userId i) s = db_after (cancelReservation io userId i s)"
| "perform io now (CompletePurchase userId i) s = db_after (completePurchase io now userId i s)"
| "perform io now ProcessExpiredReservations s = db_after (processExpiredReservations io now s)"

text \<open>
  \<open>serial t s\<close>: the database \<open>s\<close> is what some sequence of operations, each run to its
  end before the next begins, from the empty database at times that never decrease,
  has left at time \<open>t\<close>.
\<close>

inductive serial :: "int \<Rightarrow> database \<Rightarrow> bool" where
  start: "serial t empty_database"
| step: "serial t s \<Longrightarrow> t \<le> t' \<Longrightarrow> serial t' (perform io t' opn s)"

text \<open>
  The transactions of the server run concurrently. \<^verbatim>\<open>reserveItem\<close> opens its transaction
  \<^verbatim>\<open>READ COMMITTED\<close> and runs its first query with no lock, so other transactions can
  commit between that query and the row lock on the drop. \<open>interleaved t s waiting\<close>:
  the committed database is \<open>s\<close> at time \<open>t\<close>, and \<open>waiting\<close> lists the requests to
  \<^verbatim>\<open>reserveItem\<close>, as user and drop, whose first query has found nothing and which have
  not locked the drop yet. From the row lock on, a request runs alone: until it
  commits or rolls back, the lock keeps every other writer of that drop out.
\<close>

inductive interleaved :: "int \<Rightarrow> database \<Rightarrow> (nat \<times> nat) list \<Rightarrow> bool" where
  start: "interleaved t empty_database []"
| whole: "interleaved t s waiting \<Longrightarrow> t \<le> t' \<Longrightarrow>
    interleaved t' (perform io t' opn s) waiting"
| query: "interleaved t s waiting \<Longrightarrow> t \<le> t' \<Longrightarrow>
    find (holds_active t' userId dropId) (reservations s) = None \<Longrightarrow>
    interleaved t' s ((userId, dropId) # waiting)"
| locked: "interleaved t s waiting \<Longrightarrow> t \<le> t' \<Longrightarrow> (userId, dropId) \<in> set waiting \<Longrightarrow>
    interleaved t' (db_after (reserveItem_locked env io t' userId dropId s))
      (remove1 (userId, dropId) waiting)"

text \<open>\<open>reachable t s\<close>: some run of the server has the committed database \<open>s\<close> at time \<open>t\<close>.\<close>

definition reachable :: "int \<Rightarrow> database \<Rightarrow> bool" where
  "reachable t s = (\<exists>waiting. interleaved t s waiting)"

text \<open>The ceiling on the stock of every drop of a database.\<close>

definition within_ceiling :: "database \<Rightarrow> bool" where
  "within_ceiling s = (\<forall>d \<in> ran (drops s). 0 \<le> stock d \<and> stock d \<le> initial_stock d)"

text \<open>
  Events are emitted only once the transaction has committed: reading the log from
  the left, every \<open>Emit\<close> comes after a \<open>Commit\<close> with no \<open>Rollback\<close> in between.
\<close>

fun emits_after_commit :: "bool \<Rightarrow> action list \<Rightarrow> bool" where
  "emits_after_commit committed [] = True"
| "emits_after_commit committed (Commit # as) = emits_after_commit True as"
| "emits_after_commit committed (Rollback # as) = emits_after_commit False as"
| "emits_after_commit committed (Emit e # as) = (committed \<and> emits_after_commit committed as)"

subsection \<open>Example databases\<close>

text \<open>
  Three drops and three reservations, as they stand at time 1800: user 7 reserved a pair
  of drop 1 at 1000 and holds it until 61000; on drop 2, user 8 reserved the only pair
  at 1500 and cancelled, user 9 reserved it at 1700 and bought it at 1800; drop 3 starts
  at 5000. The table has each of these times to the whole second.
\<close>

definition jordan :: drop where
  "jordan = \<lparr>name = ''Air Jordan 1'', price = 19999, stock = 1, initial_stock = 2,
              drop_start_time = None\<rparr>"

definition dunk :: drop where
  "dunk = \<lparr>name = ''Dunk Low'', price = 12000, stock = 0, initial_stock = 1,
            drop_start_time = None\<rparr>"

definition yeezy :: drop where
  "yeezy = \<lparr>name = ''Yeezy 350'', price = 23000, stock = 1, initial_stock = 1,
             drop_start_time = Some 5000\<rparr>"

definition shop :: database where
  "shop =
     \<lparr>drops = [1 \<mapsto> jordan, 2 \<mapsto> dunk, 3 \<mapsto> yeezy],
      next_drop_id = 4,
      reservations =
        [\<lparr>res_id = 1, user_id = 7, drop_id = 1, status = Active, expires_at = 61000\<rparr>,
         \<lparr>res_id = 2, user_id = 8, drop_id = 2, status = Expired, expires_at = 61000\<rparr>,
         \<lparr>res_id = 3, user_id = 9, drop_id = 2, status = Completed, expires_at = 61000\<rparr>],
      next_reservation_id = 4,
      purchases =
        [\<lparr>purchase_id = 1, purchase_user_id = 9, purchase_drop_id = 2, purchase_price = 12000,
          purchased_at = 1000\<rparr>],
      next_purchase_id = 2\<rparr>"

text \<open>
  A second database, and the requests that lead to it from the empty one: two drops of
  one pair each are created, user 7 reserves both, and the stock of drop 2 is then set
  back to 1 by an update while the reservation on it is still active.
\<close>

definition launch :: create_request where
  "launch = \<lparr>c_name = ''Air Jordan 1'', c_price = 19999, c_stock = 1, c_initial_stock = 1,
              c_drop_start_time = None\<rparr>"

definition restock :: update_request where
  "restock = \<lparr>u_name = None, u_price = None, u_stock = Some 1, u_drop_start_time = None\<rparr>"

definition crowded :: database where
  "crowded =
     \<lparr>drops =
        [1 \<mapsto> \<lparr>name = ''Air Jordan 1'', price = 19999, stock = 0, initial_stock = 1,
               drop_start_time = None\<rparr>,
         2 \<mapsto> \<lparr>name = ''Air Jordan 1'', price = 19999, stock = 1, initial_stock = 1,
               drop_start_time = None\<rparr>],
      next_drop_id = 3,
      reservations =
        [\<lparr>res_id = 1, user_id = 7, drop_id = 1, status = Active, expires_at = 61000\<rparr>,
         \<lparr>res_id = 2, user_id = 7, drop_id = 2, status = Active, expires_at = 62000\<rparr>],
      next_reservation_id = 3,
      purchases = [],
      next_purchase_id = 1\<rparr>"

text \<open>A request to create a drop with more stock than its initial stock.\<close>

definition oversold :: create_request where
  "oversold = \<lparr>c_name = ''Air Max 90'', c_price = 15000, c_stock = 5, c_initial_stock = 3,
                c_drop_start_time = None\<rparr>"

text \<open>A request to set the stock of a drop to the same 5.\<close>

definition overfill :: update_request where
  "overfill = \<lparr>u_name = None, u_price = None, u_stock = Some 5, u_drop_start_time = None\<rparr>"

text \<open>
  A drop of two pairs, the database that holds it alone, and the database in which
  user 7 holds both pairs.
\<close>

definition release :: create_request where
  "release = \<lparr>c_name = ''Air Force 1'', c_price = 11000, c_stock = 2, c_initial_stock = 2,
               c_drop_start_time = None\<rparr>"

definition released :: database where
  "released =
     \<lparr>drops =
        [1 \<mapsto> \<lparr>name = ''Air Force 1'', price = 11000, stock = 2, initial_stock = 2,
               drop_start_time = None\<rparr>],
      next_drop_id = 2, reservations = [], next_reservation_id = 1,
      purchases = [], next_purchase_id = 1\<rparr>"

definition double_booked :: database where
  "double_booked =
     \<lparr>drops =
        [1 \<mapsto> \<lparr>name = ''Air Force 1'', price = 11000, stock = 0, initial_stock = 2,
               drop_start_time = None\<rparr>],
      next_drop_id = 2,
      reservations =
        [\<lparr>res_id = 1, user_id = 7, drop_id = 1, status = Active, expires_at = 61000\<rparr>,
         \<lparr>res_id = 2, user_id = 7, drop_id = 1, status = Active, expires_at = 61000\<rparr>],
      next_reservation_id = 3, purchases = [], next_purchase_id = 1\<rparr>"

text \<open>
  A database with reservations of several users on two drops: on drop 1 (three pairs)
  users 7 and 9 hold one each until 61000 and 62000 and user 5 holds one until 90000; on
  drop 2 (two pairs) user 8 holds one until 61000 and user 7 has bought the other.
\<close>

definition queue :: database where
  "queue =
     \<lparr>drops =
        [1 \<mapsto> \<lparr>name = ''Air Jordan 1'', price = 19999, stock = 0, initial_stock = 3,
               drop_start_time = None\<rparr>,
         2 \<mapsto> \<lparr>name = ''Dunk Low'', price = 12000, stock = 0, initial_stock = 2,
               drop_start_time = None\<rparr>],
      next_drop_id = 3,
      reservations =
        [\<lparr>res_id = 1, user_id = 7, drop_id = 1, status = Active, expires_at = 61000\<rparr>,
         \<lparr>res_id = 2, user_id = 8, drop_id = 2, status = Active, expires_at = 61000\<rparr>,
         \<lparr>res_id = 3, user_id = 9, drop_id = 1, status = Active, expires_at = 62000\<rparr>,
         \<lparr>res_id = 4, user_id = 7, drop_id = 2, status = Completed, expires_at = 62000\<rparr>,
         \<lparr>res_id = 5, user_id = 5, drop_id = 1, status = Active, expires_at = 90000\<rparr>],
      next_reservation_id = 6,
      purchases =
        [\<lparr>purchase_id = 1, purchase_user_id = 7, purchase_drop_id = 2, purchase_price = 12000,
          purchased_at = 3000\<rparr>],
      next_purchase_id = 2\<rparr>"

text \<open>Drops for the stock percentage: none of 0 pairs, 2 of 3, 1 of 8, 29 of 200.\<close>

definition unstocked :: drop where
  "unstocked = \<lparr>name = ''Air Jordan 1'', price = 19999, stock = 5, initial_stock = 0,
                 drop_start_time = None\<rparr>"

definition two_thirds :: drop where
  "two_thirds = \<lparr>name = ''Air Jordan 1'', price = 19999, stock = 2, initial_stock = 3,
                  drop_start_time = None\<rparr>"

definition one_eighth :: drop where
  "one_eighth = \<lparr>name = ''Air Jordan 1'', price = 19999, stock = 1, initial_stock = 8,
                  drop_start_time = None\<rparr>"

definition nearly_half :: drop where
  "nearly_half = \<lparr>name = ''Air Jordan 1'', price = 19999, stock = 29, initial_stock = 200,
                   drop_start_time = None\<rparr>"

section \<open>Searching a table\<close>

lemma find_SomeD: "find P xs = Some x \<Longrightarrow> x \<in> set xs \<and> P x"
  by (induction xs) (auto split: if_splits)

text \<open>A search by primary key and further columns finds the one row with that key.\<close>

lemma find_distinct_key:
  assumes "distinct (map key xs)" and "r \<in> set xs"
  shows "find (\<lambda>x. key x = key r \<and> Q x) xs = (if Q r then Some r else None)"
  using assms
proof (induction xs)
  case Nil
  then show ?case by simp
next
  case (Cons a xs)
  show ?case
  proof (cases "r = a")
    case True
    have "key r \<notin> set (map key xs)"
      using Cons.prems(1) True by simp
    then have "\<forall>x \<in> set xs. key x \<noteq> key r"
      by (metis imageI set_map)
    then have "find (\<lambda>x. key x = key r \<and> Q x) xs = None"
      by (auto simp: find_None_iff)
    then show ?thesis using True by simp
  next
    case False
    then have in_xs: "r \<in> set xs" using Cons.prems(2) by simp
    then have "key r \<in> set (map key xs)" by simp
    then have "key a \<noteq> key r" using Cons.prems(1) by auto
    then show ?thesis using Cons.IH in_xs Cons.prems(1) by simp
  qed
qed

section \<open>The stock percentage of a drop\<close>

text \<open>
  Some doubles, as the rounding gives them: 0.1; \<open>2^53 + 1\<close> and \<open>2^53 + 3\<close>, which lie
  halfway between two doubles and go to the even one; the quotient 29/200 and the
  products \<^verbatim>\<open>29 / 200 * 100\<close> and \<^verbatim>\<open>2 / 3 * 100\<close>.
\<close>

lemma fl_examples:
  "fl (1 / 10) = 3602879701896397 / 36028797018963968"
  "fl 9007199254740993 = 9007199254740992"
  "fl 9007199254740995 = 9007199254740996"
  "fl (29 / 200) = 5224175567749775 / 36028797018963968"
  "fl (fl (29 / 200) * 100) = 8162774324609023 / 562949953421312"
  "fl (fl (2 / 3) * 100) = 2345624805922133 / 35184372088832"
  by code_simp+

text \<open>
  Rounding to a double moves a number by at most one part in \<open>2^53\<close> of itself: the
  significand has 53 bits and the exponent found is not above the number.
\<close>

lemma round_half_even_error: "\<bar>of_int (round_half_even m) - m\<bar> \<le> 1 / 2"
proof -
  have "of_int \<lfloor>m\<rfloor> \<le> m" "m < of_int \<lfloor>m\<rfloor> + 1" by linarith+
  then show ?thesis unfolding round_half_even_def Let_def by (auto simp: abs_le_iff)
qed

lemma bitlen_lower: "0 < a \<Longrightarrow> (2::rat) powi (bitlen a - 1) \<le> of_int a"
proof -
  assume a: "0 < a"
  then have "2 ^ nat (bitlen a - 1) \<le> a" using bitlen_bounds by blast
  then have "(of_int (2 ^ nat (bitlen a - 1)) :: rat) \<le> of_int a" by (simp only: of_int_le_iff)
  moreover have "0 \<le> bitlen a - 1"
    using a bitlen_eq_zero_iff [of a] bitlen_nonneg [of a] by linarith
  ultimately show ?thesis by (simp add: power_int_def)
qed

lemma bitlen_upper: "0 < b \<Longrightarrow> of_int b < (2::rat) powi (bitlen b)"
proof -
  assume b: "0 < b"
  then have "b < 2 ^ nat (bitlen b)" using bitlen_bounds by blast
  then have "(of_int b :: rat) < of_int (2 ^ nat (bitlen b))" by (simp only: of_int_less_iff)
  moreover have "0 \<le> bitlen b" by (rule bitlen_nonneg)
  ultimately show ?thesis by (simp add: power_int_def)
qed

lemma exponent_of_le:
  assumes "x \<noteq> 0"
  shows "2 powi (exponent_of x) \<le> \<bar>x\<bar>"
proof -
  obtain a b where q: "quotient_of \<bar>x\<bar> = (a, b)" by (cases "quotient_of \<bar>x\<bar>")
  have b: "0 < b" using quotient_of_denom_pos [OF q] .
  have x: "\<bar>x\<bar> = of_int a / of_int b" using quotient_of_div [OF q] .
  have a: "0 < a"
  proof (rule ccontr)
    assume "\<not> 0 < a"
    then have "(of_int a :: rat) \<le> 0" by simp
    then have "\<bar>x\<bar> \<le> 0" unfolding x using b by (simp add: divide_le_0_iff)
    then show False using assms by simp
  qed
  show ?thesis
  proof (cases "2 powi (bitlen a - bitlen b) \<le> \<bar>x\<bar>")
    case True
    then show ?thesis by (simp add: exponent_of_def q)
  next
    case False
    have "bitlen a - bitlen b - 1 = (bitlen a - 1) - bitlen b" by simp
    then have "(2::rat) powi (bitlen a - bitlen b - 1) = 2 powi (bitlen a - 1) / 2 powi (bitlen b)"
      by (simp only: power_int_diff [of "2::rat"] numeral_neq_zero simp_thms)
    also have "\<dots> \<le> of_int a / 2 powi (bitlen b)"
      using bitlen_lower [OF a] by (simp add: divide_right_mono)
    also have "\<dots> \<le> of_int a / of_int b"
      using bitlen_upper [OF b] a b by (simp add: frac_le)
    finally have "2 powi (bitlen a - bitlen b - 1) \<le> \<bar>x\<bar>" unfolding x .
    then show ?thesis using False by (simp add: exponent_of_def q)
  qed
qed

lemma fl_error: "\<bar>fl x - x\<bar> \<le> \<bar>x\<bar> / 2 ^ 53"
proof (cases "x = 0")
  case True
  then show ?thesis by (simp add: fl_def)
next
  case False
  define u :: rat where "u = 2 powi (exponent_of x - 52)"
  have u: "0 < u" by (simp add: u_def)
  have "fl x - x = u * (of_int (round_half_even (x / u)) - x / u)"
    using False u by (simp add: fl_def u_def [symmetric] Let_def algebra_simps)
  then have "\<bar>fl x - x\<bar> = u * \<bar>of_int (round_half_even (x / u)) - x / u\<bar>"
    using u by (simp add: abs_mult)
  also have "\<dots> \<le> u * (1 / 2)"
    using round_half_even_error [of "x / u"] u by (simp only: mult_left_mono less_imp_le)
  also have "\<dots> = 2 powi (exponent_of x) / 2 ^ 53"
    by (simp add: u_def power_int_diff)
  also have "\<dots> \<le> \<bar>x\<bar> / 2 ^ 53"
    using exponent_of_le [OF False] by (simp add: divide_right_mono)
  finally show ?thesis .
qed

lemma percentage_error:
  fixes q :: rat
  shows "\<bar>of_int \<lfloor>fl (fl q * 100) + 1 / 2\<rfloor> - 100 * q\<bar> \<le> 1 / 2 + \<bar>q\<bar> / 2 ^ 44"
proof -
  define y1 where "y1 = fl q"
  define y2 where "y2 = fl (y1 * 100)"
  define n where "n = \<lfloor>y2 + 1 / 2\<rfloor>"
  define a where "a = \<bar>q\<bar> / 2 ^ 53"
  have a: "0 \<le> a" and q: "\<bar>q\<bar> = 2 ^ 53 * a" and a44: "\<bar>q\<bar> / 2 ^ 44 = 512 * a"
    by (simp_all add: a_def)
  have e1: "\<bar>y1 - q\<bar> \<le> a" unfolding y1_def a_def by (rule fl_error)
  have "a \<le> \<bar>q\<bar>" by (simp add: a_def divide_le_eq)
  then have y1: "\<bar>y1\<bar> \<le> 2 * \<bar>q\<bar>" using e1 by linarith
  have "\<bar>y2 - y1 * 100\<bar> \<le> \<bar>y1 * 100\<bar> / 2 ^ 53" unfolding y2_def by (rule fl_error)
  also have "\<bar>y1 * 100\<bar> / 2 ^ 53 = 100 * \<bar>y1\<bar> / 2 ^ 53" by (simp add: abs_mult)
  also have "\<dots> \<le> 100 * (2 * \<bar>q\<bar>) / 2 ^ 53"
    using y1 by (simp add: divide_right_mono)
  also have "\<dots> = 200 * a" by (simp add: a_def)
  finally have e2: "\<bar>y2 - y1 * 100\<bar> \<le> 200 * a" .
  have e3: "\<bar>of_int n - y2\<bar> \<le> 1 / 2" unfolding n_def by linarith
  have "\<bar>of_int n - 100 * q\<bar> \<le> 1 / 2 + 512 * a"
    using e1 e2 e3 a by (simp only: abs_le_iff) linarith
  then show ?thesis unfolding n_def y2_def y1_def a44 .
qed

lemma off_tie:
  fixes N D r :: int
  assumes D: "D \<noteq> 0" and nd: "\<not> D dvd N"
    and r: "r = \<lfloor>(of_int N :: rat) / of_int D\<rfloor>"
  shows "of_int r + 1 / \<bar>of_int D\<bar> \<le> (of_int N :: rat) / of_int D"
    and "(of_int N :: rat) / of_int D + 1 / \<bar>of_int D\<bar> \<le> of_int r + 1"
proof -
  let ?y = "(of_int N :: rat) / of_int D"
  have fl: "of_int r \<le> ?y" "?y < of_int r + 1" unfolding r by linarith+
  have D': "(of_int D :: rat) \<noteq> 0" using D by simp
  have ne: "?y \<noteq> of_int k" for k
  proof
    assume "?y = of_int k"
    then have "(of_int N :: rat) = of_int (k * D)" using D' by (simp add: field_simps)
    then have "N = k * D" by (simp only: of_int_eq_iff)
    then show False using nd by simp
  qed
  have step: "1 / \<bar>of_int D\<bar> \<le> \<bar>?y - of_int k\<bar>" for k
  proof -
    have "?y - of_int k = of_int (N - k * D) / of_int D" using D' by (simp add: field_simps)
    then have "\<bar>?y - of_int k\<bar> = \<bar>of_int (N - k * D)\<bar> / \<bar>of_int D :: rat\<bar>" by simp
    moreover have "N - k * D \<noteq> 0" using ne [of k] D' by (auto simp: field_simps)
    then have "1 \<le> \<bar>N - k * D\<bar>" by simp
    then have "(1::rat) \<le> \<bar>of_int (N - k * D)\<bar>" by (metis of_int_1_le_iff of_int_abs)
    ultimately show ?thesis using D' by (simp add: divide_right_mono)
  qed
  show "of_int r + 1 / \<bar>of_int D\<bar> \<le> ?y" using step [of r] fl by linarith
  show "?y + 1 / \<bar>of_int D\<bar> \<le> of_int r + 1" using step [of "r + 1"] fl by simp
qed

lemma getStockPercentage_value:
  "initial_stock d \<noteq> 0 \<Longrightarrow>
     getStockPercentage d =
       Num (of_int \<lfloor>fl (fl (of_int (stock d) / of_int (initial_stock d)) * 100) + 1 / 2\<rfloor>)"
  by (simp add: getStockPercentage_def)

lemma exact_off_tie:
  fixes s i n :: int
  assumes i: "i \<noteq> 0" and s: "\<bar>s\<bar> < 2 ^ 43" and nd: "\<not> 2 * i dvd 200 * s + i"
    and err: "\<bar>of_int n - 100 * (of_int s / of_int i)\<bar> \<le> 1 / 2 + \<bar>of_int s / of_int i :: rat\<bar> / 2 ^ 44"
  shows "n = round (100 * (of_int s / of_int i) :: rat)"
proof -
  define x :: rat where "x = 100 * (of_int s / of_int i)"
  define r where "r = round x"
  define g :: rat where "g = 1 / \<bar>of_int (2 * i)\<bar>"
  have i': "(of_int i :: rat) \<noteq> 0" using i by simp
  have y: "(of_int (200 * s + i) :: rat) / of_int (2 * i) = x + 1 / 2"
    using i' by (simp add: x_def field_simps)
  have r: "r = \<lfloor>(of_int (200 * s + i) :: rat) / of_int (2 * i)\<rfloor>"
    unfolding y r_def round_def ..
  have D: "2 * i \<noteq> 0" using i by simp
  note gap = off_tie [OF D nd r, unfolded y, folded g_def]
  have "\<bar>of_int s :: rat\<bar> < 2 ^ 43" using s by (metis of_int_abs of_int_less_iff of_int_numeral of_int_power)
  then have "\<bar>of_int s :: rat\<bar> / 2 ^ 44 < 1 / 2" by simp
  moreover have "0 < \<bar>of_int i :: rat\<bar>" using i' by simp
  ultimately have "\<bar>of_int s :: rat\<bar> / 2 ^ 44 / \<bar>of_int i\<bar> < 1 / 2 / \<bar>of_int i\<bar>"
    by (rule divide_strict_right_mono)
  moreover have "\<bar>of_int s / of_int i :: rat\<bar> / 2 ^ 44 = \<bar>of_int s :: rat\<bar> / 2 ^ 44 / \<bar>of_int i\<bar>"
    by (simp add: abs_divide)
  moreover have "g = 1 / 2 / \<bar>of_int i\<bar>" by (simp add: g_def abs_mult)
  ultimately have eps: "\<bar>of_int s / of_int i :: rat\<bar> / 2 ^ 44 < g" by simp
  have "\<bar>of_int n - x\<bar> < 1 / 2 + g" using err eps unfolding x_def by linarith
  then have "of_int n < (of_int r :: rat) + 1" and "(of_int r :: rat) - 1 < of_int n"
    using gap by linarith+
  then have "n < r + 1" and "r - 1 < n" by linarith+
  then show ?thesis unfolding r_def x_def by simp
qed

text \<open>
  Claim C10. \<^verbatim>\<open>getStockPercentage\<close> always returns a finite integer \<open>n\<close>. It is 0 for a
  drop whose \<^verbatim>\<open>initial_stock\<close> is 0, where the quotient is not formed at all. For every
  other drop it is \<^verbatim>\<open>Math.round\<close> of a product of doubles: \<open>n\<close> lies within
  \<open>1/2 + |stock / initial_stock| / 2^44\<close> of the exact percentage. For a stock below
  \<open>2^43\<close> in size it is the exact percentage rounded to the nearest integer, unless that
  percentage lies exactly halfway between two integers (twice \<^verbatim>\<open>initial_stock\<close> divides
  200 times \<^verbatim>\<open>stock\<close> plus \<^verbatim>\<open>initial_stock\<close>), where it is one of the two. For a stock
  between 0 and the initial stock it lies between 0 and 100.
\<close>

theorem getStockPercentage_total:
  "\<exists>n::int. getStockPercentage d = Num (of_int n) \<and>
     (initial_stock d = 0 \<longrightarrow> n = 0) \<and>
     (initial_stock d \<noteq> 0 \<longrightarrow>
        \<bar>of_int n - 100 * (of_int (stock d) / of_int (initial_stock d))\<bar>
          \<le> 1 / 2 + \<bar>of_int (stock d) / of_int (initial_stock d) :: rat\<bar> / 2 ^ 44) \<and>
     (initial_stock d \<noteq> 0 \<and> \<bar>stock d\<bar> < 2 ^ 43 \<and>
      \<not> 2 * initial_stock d dvd 200 * stock d + initial_stock d \<longrightarrow>
        n = round (100 * (of_int (stock d) / of_int (initial_stock d)) :: rat)) \<and>
     (0 \<le> stock d \<and> stock d \<le> initial_stock d \<longrightarrow> 0 \<le> n \<and> n \<le> 100)"
proof (cases "initial_stock d = 0")
  case True
  then have "getStockPercentage d = Num (of_int 0)" by (simp add: getStockPercentage_def)
  then show ?thesis using True by (intro exI [of _ 0]) simp
next
  case False
  define q :: rat where "q = of_int (stock d) / of_int (initial_stock d)"
  define n where "n = \<lfloor>fl (fl q * 100) + 1 / 2\<rfloor>"
  have val: "getStockPercentage d = Num (of_int n)"
    unfolding n_def q_def by (rule getStockPercentage_value [OF False])
  have err: "\<bar>of_int n - 100 * q\<bar> \<le> 1 / 2 + \<bar>q\<bar> / 2 ^ 44"
    unfolding n_def by (rule percentage_error)
  have exact: "n = round (100 * q)"
    if "\<bar>stock d\<bar> < 2 ^ 43" "\<not> 2 * initial_stock d dvd 200 * stock d + initial_stock d"
    unfolding q_def by (rule exact_off_tie [OF False that err [unfolded q_def]])
  have range: "0 \<le> n \<and> n \<le> 100" if "0 \<le> stock d" "stock d \<le> initial_stock d"
  proof -
    have pos: "0 < initial_stock d" using that False by simp
    have "0 \<le> q" using that pos by (simp add: q_def)
    moreover have "q \<le> 1" using that pos by (simp add: q_def)
    ultimately have "\<bar>q\<bar> / 2 ^ 44 \<le> 1 / 4" and "0 \<le> q" and "q \<le> 1"
      by (simp_all add: divide_le_eq)
    then have "- 1 < (of_int n :: rat)" and "(of_int n :: rat) < 101"
      using err by linarith+
    then have "- 1 < n" and "n < 101" by linarith+
    then show ?thesis by simp
  qed
  show ?thesis
    using val err exact range False unfolding q_def by (intro exI [of _ n]) simp
qed

text \<open>
  A drop created with no initial stock shows 0; a drop at 2 of 3 shows 67, the exact
  percentage rounded; a drop at 29 of 200 shows 14, within the bound; a drop at 1 of 8,
  where the product of doubles is 12.5 itself, shows 13.
\<close>

theorem getStockPercentage_total_witness:
  "getStockPercentage unstocked = Num 0 \<and>
   getStockPercentage two_thirds = Num 67 \<and>
   round (100 * (of_int (stock two_thirds) / of_int (initial_stock two_thirds)) :: rat) = 67 \<and>
   getStockPercentage nearly_half = Num 14 \<and>
   \<bar>14 - 100 * (of_int (stock nearly_half) / of_int (initial_stock nearly_half))\<bar>
      \<le> 1 / 2 + \<bar>of_int (stock nearly_half) / of_int (initial_stock nearly_half) :: rat\<bar> / 2 ^ 44 \<and>
   getStockPercentage one_eighth = Num 13"
proof -
  have tie: "getStockPercentage one_eighth = Num 13" unfolding one_eighth_def by code_simp
  obtain n0 where n0: "getStockPercentage unstocked = Num (of_int n0)"
    "initial_stock unstocked = 0 \<longrightarrow> n0 = 0"
    using getStockPercentage_total [of unstocked] by blast
  have "initial_stock unstocked = 0" by (simp add: unstocked_def)
  then have a: "getStockPercentage unstocked = Num 0" using n0 by simp
  obtain n where n: "getStockPercentage two_thirds = Num (of_int n)"
    and exact: "initial_stock two_thirds \<noteq> 0 \<and> \<bar>stock two_thirds\<bar> < 2 ^ 43 \<and>
      \<not> 2 * initial_stock two_thirds dvd 200 * stock two_thirds + initial_stock two_thirds \<longrightarrow>
        n = round (100 * (of_int (stock two_thirds) / of_int (initial_stock two_thirds)) :: rat)"
    using getStockPercentage_total [of two_thirds] by blast
  have ev: "getStockPercentage two_thirds = Num 67" unfolding two_thirds_def by code_simp
  then have n67: "n = 67" using n by simp
  have "initial_stock two_thirds \<noteq> 0 \<and> \<bar>stock two_thirds\<bar> < 2 ^ 43 \<and>
      \<not> 2 * initial_stock two_thirds dvd 200 * stock two_thirds + initial_stock two_thirds"
    by (simp add: two_thirds_def)
  then have b: "round (100 * (of_int (stock two_thirds) / of_int (initial_stock two_thirds)) :: rat) = 67"
    using exact n67 by simp
  obtain m where m: "getStockPercentage nearly_half = Num (of_int m)"
    and err: "initial_stock nearly_half \<noteq> 0 \<longrightarrow>
        \<bar>of_int m - 100 * (of_int (stock nearly_half) / of_int (initial_stock nearly_half))\<bar>
          \<le> 1 / 2 + \<bar>of_int (stock nearly_half) / of_int (initial_stock nearly_half) :: rat\<bar> / 2 ^ 44"
    using getStockPercentage_total [of nearly_half] by blast
  have ev': "getStockPercentage nearly_half = Num 14" unfolding nearly_half_def by code_simp
  then have m14: "m = 14" using m by simp
  have "initial_stock nearly_half \<noteq> 0" by (simp add: nearly_half_def)
  then have c: "\<bar>14 - 100 * (of_int (stock nearly_half) / of_int (initial_stock nearly_half))\<bar>
      \<le> 1 / 2 + \<bar>of_int (stock nearly_half) / of_int (initial_stock nearly_half) :: rat\<bar> / 2 ^ 44"
    using err m14 by simp
  show ?thesis using a ev b ev' c tie by (intro conjI)
qed

text \<open>
  The claim gives the percentage as \<open>stock / initial_stock * 100\<close> rounded. At 29 of 200
  that number is 14.5, which rounds to 15; the double nearest to 29/200, times 100, lies
  just under 14.5, and the method returns 14.
\<close>

theorem getStockPercentage_below_exact_rounding:
  "getStockPercentage
     \<lparr>name = ''Air Jordan 1'', price = 19999, stock = 29, initial_stock = 200,
      drop_start_time = None\<rparr> = Num 14 \<and>
   round ((29 :: rat) / 200 * 100) = (15 :: int)"
proof -
  have "getStockPercentage
     \<lparr>name = ''Air Jordan 1'', price = 19999, stock = 29, initial_stock = 200,
      drop_start_time = None\<rparr> = Num 14"
    by code_simp
  moreover have "round ((29 :: rat) / 200 * 100) = (15 :: int)"
    by (simp add: round_def)
  ultimately show ?thesis by (intro conjI)
qed

text \<open>What the guard keeps out: a quotient by zero is \<^verbatim>\<open>NaN\<close> or infinite.\<close>

lemma quotient_by_zero:
  "js_divide (Num x) (Num 0) = (if x = 0 then NaN else if 0 < x then PosInfinity else NegInfinity)"
  by simp

section \<open>Dates in the table\<close>

lemma DATETIME_le: "DATETIME t \<le> t"
  by (simp add: DATETIME_def)

lemma DATETIME_mono: "t \<le> t' \<Longrightarrow> DATETIME t \<le> DATETIME t'"
proof -
  assume "t \<le> t'"
  then have "t div 1000 \<le> t' div 1000" by (rule zdiv_mono1) simp
  moreover have "DATETIME u = 1000 * (u div 1000)" for u
    by (simp add: DATETIME_def minus_mod_eq_mult_div)
  ultimately show ?thesis by simp
qed

section \<open>Reserving an item\<close>

text \<open>A save that changes the stock alone passes when the new stock is in range.\<close>

lemma drop_save_Inr:
  "drop_save old new = Inr d' \<Longrightarrow>
     d' = new \<and> validate_changed old new = [] \<and> stock new \<le> initial_stock new"
  by (auto simp: drop_save_def beforeUpdate_def split: if_splits)

lemma drop_save_result: "(\<exists>e. drop_save old new = Inl e) \<or> drop_save old new = Inr new"
  by (simp add: drop_save_def beforeUpdate_def)

lemma drop_save_stock:
  "drop_save d (d\<lparr>stock := k\<rparr>) = Inr (d\<lparr>stock := k\<rparr>) \<longleftrightarrow>
     (k = stock d \<or> 0 \<le> k) \<and> k \<le> initial_stock d"
  by (auto simp: drop_save_def beforeUpdate_def validate_changed_def validate_stock_def)

text \<open>The paths through \<^verbatim>\<open>reserveItem\<close> from its row lock on, one equation each.\<close>

lemma reserveItem_locked_unfold:
  assumes "drops s dropId = Some d" and "hasStarted now d" and "0 < stock d"
    and "drop_save d (d\<lparr>stock := stock d - 1\<rparr>) = Inr d'"
    and "valid_date (now + expirationDuration env)"
    and "now < now + expirationDuration env"
  shows "reserveItem_locked env io now userId dropId s =
     \<lparr>response = Inr
        \<lparr>rr_id = next_reservation_id s, rr_drop_id = dropId, rr_status = Active,
         rr_expires_at = now + expirationDuration env,
         rr_remaining_seconds = getRemainingTime now
           \<lparr>res_id = next_reservation_id s, user_id = userId, drop_id = dropId,
            status = Active, expires_at = now + expirationDuration env\<rparr>,
         rr_drop_name = name d', rr_drop_stock = stock d'\<rparr>,
      db_after = s\<lparr>drops := (drops s)(dropId \<mapsto> d'),
         reservations := reservations s @
           [\<lparr>res_id = next_reservation_id s, user_id = userId, drop_id = dropId,
             status = Active, expires_at = DATETIME (now + expirationDuration env)\<rparr>],
         next_reservation_id := Suc (next_reservation_id s)\<rparr>,
      actions = Commit # emits io
        [StockUpdate dropId (stock d'), ReservationCreated (next_reservation_id s) dropId userId]\<rparr>"
  using assms by (simp add: reserveItem_locked_def Let_def)

lemma reserveItem_locked_rejections:
  "drops s dropId = None \<Longrightarrow>
     reserveItem_locked env io now userId dropId s = rolled_back drop_not_found s"
  "drops s dropId = Some d \<Longrightarrow> \<not> hasStarted now d \<Longrightarrow>
     reserveItem_locked env io now userId dropId s = rolled_back drop_not_started s"
  "drops s dropId = Some d \<Longrightarrow> hasStarted now d \<Longrightarrow> stock d \<le> 0 \<Longrightarrow>
     reserveItem_locked env io now userId dropId s = rolled_back out_of_stock s"
  "drops s dropId = Some d \<Longrightarrow> hasStarted now d \<Longrightarrow> 0 < stock d \<Longrightarrow>
     drop_save d (d\<lparr>stock := stock d - 1\<rparr>) = Inl e \<Longrightarrow>
     reserveItem_locked env io now userId dropId s = rolled_back e s"
  "drops s dropId = Some d \<Longrightarrow> hasStarted now d \<Longrightarrow> 0 < stock d \<Longrightarrow>
     drop_save d (d\<lparr>stock := stock d - 1\<rparr>) = Inr d' \<Longrightarrow>
     \<not> valid_date (now + expirationDuration env) \<Longrightarrow>
     reserveItem_locked env io now userId dropId s = rolled_back invalid_expires_at s"
  "drops s dropId = Some d \<Longrightarrow> hasStarted now d \<Longrightarrow> 0 < stock d \<Longrightarrow>
     drop_save d (d\<lparr>stock := stock d - 1\<rparr>) = Inr d' \<Longrightarrow>
     valid_date (now + expirationDuration env) \<Longrightarrow>
     now + expirationDuration env \<le> now \<Longrightarrow>
     reserveItem_locked env io now userId dropId s = rolled_back expires_at_not_future s"
  by (simp_all add: reserveItem_locked_def Let_def)

lemma reserveItem_locked_cases:
  "(\<exists>e. reserveItem_locked env io now userId dropId s = rolled_back e s) \<or>
   (\<exists>d. drops s dropId = Some d \<and> hasStarted now d \<and> 0 < stock d \<and>
      drop_save d (d\<lparr>stock := stock d - 1\<rparr>) = Inr (d\<lparr>stock := stock d - 1\<rparr>) \<and>
      valid_date (now + expirationDuration env) \<and>
      now < now + expirationDuration env)"
proof (cases "drops s dropId")
  case None
  then show ?thesis using reserveItem_locked_rejections(1) by blast
next
  case (Some d)
  show ?thesis
  proof (cases "hasStarted now d \<and> 0 < stock d")
    case False
    then have "\<not> hasStarted now d \<or> (hasStarted now d \<and> stock d \<le> 0)" by auto
    then show ?thesis using Some reserveItem_locked_rejections(2,3) by blast
  next
    case True
    show ?thesis
    proof (cases "drop_save d (d\<lparr>stock := stock d - 1\<rparr>) = Inr (d\<lparr>stock := stock d - 1\<rparr>)")
      case False
      then obtain e where "drop_save d (d\<lparr>stock := stock d - 1\<rparr>) = Inl e"
        using drop_save_result by blast
      then show ?thesis using Some True reserveItem_locked_rejections(4) by blast
    next
      case saved: True
      show ?thesis
      proof (cases "valid_date (now + expirationDuration env)")
        case False
        then show ?thesis using Some \<open>hasStarted now d \<and> 0 < stock d\<close> saved
            reserveItem_locked_rejections(5) by blast
      next
        case valid: True
        show ?thesis
        proof (cases "now + expirationDuration env \<le> now")
          case True
          then show ?thesis using Some \<open>hasStarted now d \<and> 0 < stock d\<close> saved valid
              reserveItem_locked_rejections(6) by blast
        next
          case False
          then show ?thesis using Some \<open>hasStarted now d \<and> 0 < stock d\<close> saved valid by auto
        qed
      qed
    qed
  qed
qed

text \<open>The paths through the whole handler.\<close>

lemma reserveItem_unfold:
  assumes "find (holds_active now userId dropId) (reservations s) = None"
    and "drops s dropId = Some d" and "hasStarted now d" and "0 < stock d"
    and "drop_save d (d\<lparr>stock := stock d - 1\<rparr>) = Inr d'"
    and "valid_date (now + expirationDuration env)"
    and "now < now + expirationDuration env"
  shows "reserveItem env io now userId dropId s =
     \<lparr>response = Inr
        \<lparr>rr_id = next_reservation_id s, rr_drop_id = dropId, rr_status = Active,
         rr_expires_at = now + expirationDuration env,
         rr_remaining_seconds = getRemainingTime now
           \<lparr>res_id = next_reservation_id s, user_id = userId, drop_id = dropId,
            status = Active, expires_at = now + expirationDuration env\<rparr>,
         rr_drop_name = name d', rr_drop_stock = stock d'\<rparr>,
      db_after = s\<lparr>drops := (drops s)(dropId \<mapsto> d'),
         reservations := reservations s @
           [\<lparr>res_id = next_reservation_id s, user_id = userId, drop_id = dropId,
             status = Active, expires_at = DATETIME (now + expirationDuration env)\<rparr>],
         next_reservation_id := Suc (next_reservation_id s)\<rparr>,
      actions = Commit # emits io
        [StockUpdate dropId (stock d'), ReservationCreated (next_reservation_id s) dropId userId]\<rparr>"
  using assms(1) reserveItem_locked_unfold [OF assms(2-7)] by (simp add: reserveItem_def)

lemma reserveItem_rejections:
  "find (holds_active now userId dropId) (reservations s) = Some x \<Longrightarrow>
     reserveItem env io now userId dropId s = rolled_back already_reserved s"
  "find (holds_active now userId dropId) (reservations s) = None \<Longrightarrow> drops s dropId = None \<Longrightarrow>
     reserveItem env io now userId dropId s = rolled_back drop_not_found s"
  "find (holds_active now userId dropId) (reservations s) = None \<Longrightarrow> drops s dropId = Some d \<Longrightarrow>
     \<not> hasStarted now d \<Longrightarrow>
     reserveItem env io now userId dropId s = rolled_back drop_not_started s"
  "find (holds_active now userId dropId) (reservations s) = None \<Longrightarrow> drops s dropId = Some d \<Longrightarrow>
     hasStarted now d \<Longrightarrow> stock d \<le> 0 \<Longrightarrow>
     reserveItem env io now userId dropId s = rolled_back out_of_stock s"
  by (simp_all add: reserveItem_def reserveItem_locked_rejections)

lemma reserveItem_cases:
  "(\<exists>e. reserveItem env io now userId dropId s = rolled_back e s) \<or>
   (\<exists>d. find (holds_active now userId dropId) (reservations s) = None \<and>
      drops s dropId = Some d \<and> hasStarted now d \<and> 0 < stock d \<and>
      drop_save d (d\<lparr>stock := stock d - 1\<rparr>) = Inr (d\<lparr>stock := stock d - 1\<rparr>) \<and>
      valid_date (now + expirationDuration env) \<and>
      now < now + expirationDuration env)"
proof (cases "find (holds_active now userId dropId) (reservations s)")
  case (Some x)
  then show ?thesis using reserveItem_rejections(1) by blast
next
  case None
  then have "reserveItem env io now userId dropId s = reserveItem_locked env io now userId dropId s"
    by (simp add: reserveItem_def)
  then show ?thesis
    using None reserveItem_locked_cases [of env io now userId dropId s] by auto
qed


text \<open>
  The validators of the expiry at work, on the first example database at 1000: a
  duration that ends on the last valid date is accepted, one millisecond more is not a
  date, and a negative duration is not in the future. Nothing is written in the two
  refusals.
\<close>

lemma reserveItem_date_range:
  "response (reserveItem (Some 8639999999999000) True 1000 8 1 shop) =
     Inr \<lparr>rr_id = 4, rr_drop_id = 1, rr_status = Active, rr_expires_at = 8640000000000000,
          rr_remaining_seconds = 8639999999999, rr_drop_name = ''Air Jordan 1'',
          rr_drop_stock = 0\<rparr>"
  "reserveItem (Some 8639999999999001) True 1000 8 1 shop =
     \<lparr>response = Inl (Invalid [''Expires at must be a valid date'']), db_after = shop,
      actions = [Rollback]\<rparr>"
  "reserveItem (Some (- 5)) True 1000 8 1 shop =
     \<lparr>response = Inl (Invalid [''Expiration time must be in the future'']), db_after = shop,
      actions = [Rollback]\<rparr>"
  by (simp_all add: reserveItem_def reserveItem_locked_def shop_def holds_active_def
      hasStarted_def drop_save_def validate_changed_def validate_stock_def beforeUpdate_def
      expirationDuration_def valid_date_def getRemainingTime_def DATETIME_def rolled_back_def
      invalid_expires_at_def expires_at_not_future_def jordan_def Let_def)

text \<open>
  Claim C3. \<^verbatim>\<open>reserveItem\<close> refuses, in the order of its checks: with ``You already
  have an active reservation for this drop'' when the user holds an active reservation
  of the drop that expires after now; else, for a drop that exists, with ``Drop has not
  started yet'' when its start time is still ahead; else with ``Out of stock'' when its
  stock is 0. Whenever it answers with a failure, whichever it is, the database after
  the call is the database before it: stock and reservations are unchanged.
\<close>

theorem reserveItem_failure_branches:
  "((\<exists>r \<in> set (reservations s). holds_active now userId dropId r) \<longrightarrow>
      response (reserveItem env io now userId dropId s) = Inl already_reserved) \<and>
   ((\<forall>r \<in> set (reservations s). \<not> holds_active now userId dropId r) \<and>
    drops s dropId = Some d \<and> drop_start_time d = Some t \<and> now < t \<longrightarrow>
      response (reserveItem env io now userId dropId s) = Inl drop_not_started) \<and>
   ((\<forall>r \<in> set (reservations s). \<not> holds_active now userId dropId r) \<and>
    drops s dropId = Some d \<and> hasStarted now d \<and> stock d = 0 \<longrightarrow>
      response (reserveItem env io now userId dropId s) = Inl out_of_stock) \<and>
   (\<forall>e. response (reserveItem env io now userId dropId s) = Inl e \<longrightarrow>
      db_after (reserveItem env io now userId dropId s) = s)"
proof (intro conjI impI allI)
  assume "\<exists>r \<in> set (reservations s). holds_active now userId dropId r"
  then obtain x where "find (holds_active now userId dropId) (reservations s) = Some x"
    by (cases "find (holds_active now userId dropId) (reservations s)")
      (auto simp: find_None_iff)
  then show "response (reserveItem env io now userId dropId s) = Inl already_reserved"
    by (simp add: reserveItem_rejections(1) rolled_back_def)
next
  assume a: "(\<forall>r \<in> set (reservations s). \<not> holds_active now userId dropId r) \<and>
    drops s dropId = Some d \<and> drop_start_time d = Some t \<and> now < t"
  then have "find (holds_active now userId dropId) (reservations s) = None"
    by (simp add: find_None_iff)
  moreover have "\<not> hasStarted now d" using a by (simp add: hasStarted_def)
  ultimately show "response (reserveItem env io now userId dropId s) = Inl drop_not_started"
    using a by (simp add: reserveItem_rejections(3) rolled_back_def)
next
  assume a: "(\<forall>r \<in> set (reservations s). \<not> holds_active now userId dropId r) \<and>
    drops s dropId = Some d \<and> hasStarted now d \<and> stock d = 0"
  then have "find (holds_active now userId dropId) (reservations s) = None"
    by (simp add: find_None_iff)
  then show "response (reserveItem env io now userId dropId s) = Inl out_of_stock"
    using a by (simp add: reserveItem_rejections(4) rolled_back_def)
next
  fix e
  assume failed: "response (reserveItem env io now userId dropId s) = Inl e"
  show "db_after (reserveItem env io now userId dropId s) = s"
    using reserveItem_cases [of env io now userId dropId s]
  proof (elim disjE exE conjE)
    fix e'
    assume "reserveItem env io now userId dropId s = rolled_back e' s"
    then show ?thesis by (simp add: rolled_back_def)
  next
    fix d
    assume "find (holds_active now userId dropId) (reservations s) = None"
      "drops s dropId = Some d" "hasStarted now d" "0 < stock d"
      "drop_save d (d\<lparr>stock := stock d - 1\<rparr>) = Inr (d\<lparr>stock := stock d - 1\<rparr>)"
      "valid_date (now + expirationDuration env)"
      "now < now + expirationDuration env"
    from reserveItem_unfold [OF this] failed show ?thesis by simp
  qed
qed

theorem reserveItem_failure_branches_witness:
  "response (reserveItem None True 2000 7 1 shop) = Inl already_reserved \<and>
   response (reserveItem None True 2000 7 3 shop) = Inl drop_not_started \<and>
   response (reserveItem None True 2000 7 2 shop) = Inl out_of_stock \<and>
   db_after (reserveItem None True 2000 7 1 shop) = shop \<and>
   db_after (reserveItem None True 2000 7 3 shop) = shop \<and>
   db_after (reserveItem None True 2000 7 2 shop) = shop"
proof -
  have dup: "\<exists>r \<in> set (reservations shop). holds_active 2000 7 1 r"
    by (simp add: shop_def holds_active_def DATETIME_def)
  have late: "(\<forall>r \<in> set (reservations shop). \<not> holds_active 2000 7 3 r) \<and>
      drops shop 3 = Some yeezy \<and> drop_start_time yeezy = Some 5000 \<and> (2000::int) < 5000"
    by (simp add: shop_def holds_active_def yeezy_def)
  have sold: "(\<forall>r \<in> set (reservations shop). \<not> holds_active 2000 7 2 r) \<and>
      drops shop 2 = Some dunk \<and> hasStarted 2000 dunk \<and> stock dunk = 0"
    by (simp add: shop_def holds_active_def hasStarted_def dunk_def)
  note refused = reserveItem_failure_branches [THEN conjunct1, rule_format]
  note early = reserveItem_failure_branches [THEN conjunct2, THEN conjunct1, rule_format]
  note empty = reserveItem_failure_branches [THEN conjunct2, THEN conjunct2, THEN conjunct1, rule_format]
  note same = reserveItem_failure_branches [THEN conjunct2, THEN conjunct2, THEN conjunct2, rule_format]
  have r1: "response (reserveItem None True 2000 7 1 shop) = Inl already_reserved"
    by (rule refused [OF dup])
  have r3: "response (reserveItem None True 2000 7 3 shop) = Inl drop_not_started"
    by (rule early [OF late])
  have r2: "response (reserveItem None True 2000 7 2 shop) = Inl out_of_stock"
    by (rule empty [OF sold])
  show ?thesis using r1 r2 r3 same [OF r1] same [OF r2] same [OF r3] by simp
qed




section \<open>Completing a purchase and cancelling a reservation\<close>

text \<open>The paths through \<^verbatim>\<open>completePurchase\<close> and \<^verbatim>\<open>cancelReservation\<close>, one equation each.\<close>

lemma completePurchase_paths:
  "find (\<lambda>r. res_id r = i \<and> user_id r = userId \<and> status r = Active) (reservations s) = None \<Longrightarrow>
     completePurchase io now userId i s = rolled_back active_reservation_not_found s"
  "find (\<lambda>r. res_id r = i \<and> user_id r = userId \<and> status r = Active) (reservations s) = Some r \<Longrightarrow>
     isExpired now r \<Longrightarrow>
     completePurchase io now userId i s = rolled_back reservation_expired s"
  "find (\<lambda>r. res_id r = i \<and> user_id r = userId \<and> status r = Active) (reservations s) = Some r \<Longrightarrow>
     \<not> isExpired now r \<Longrightarrow> drops s (drop_id r) = None \<Longrightarrow>
     completePurchase io now userId i s = rolled_back price_of_null s"
  "find (\<lambda>r. res_id r = i \<and> user_id r = userId \<and> status r = Active) (reservations s) = Some r \<Longrightarrow>
     \<not> isExpired now r \<Longrightarrow> drops s (drop_id r) = Some d \<Longrightarrow> price d < 0 \<Longrightarrow>
     completePurchase io now userId i s = rolled_back (Invalid (validate_price (price d))) s"
  "find (\<lambda>r. res_id r = i \<and> user_id r = userId \<and> status r = Active) (reservations s) = Some r \<Longrightarrow>
     \<not> isExpired now r \<Longrightarrow> drops s (drop_id r) = Some d \<Longrightarrow> 0 \<le> price d \<Longrightarrow>
     completePurchase io now userId i s =
       \<lparr>response = Inr
          \<lparr>pr_purchase =
             \<lparr>purchase_id = next_purchase_id s, purchase_user_id = userId,
              purchase_drop_id = drop_id r, purchase_price = price d, purchased_at = now\<rparr>,
           pr_drop_id = drop_id r, pr_drop_name = name d\<rparr>,
        db_after = s\<lparr>reservations := set_status (res_id r) Completed (reservations s),
           purchases := purchases s @
             [\<lparr>purchase_id = next_purchase_id s, purchase_user_id = userId,
               purchase_drop_id = drop_id r, purchase_price = price d,
               purchased_at = DATETIME now\<rparr>],
           next_purchase_id := Suc (next_purchase_id s)\<rparr>,
        actions = Commit # emits io [PurchaseCompleted (drop_id r) userId (next_purchase_id s)]\<rparr>"
  by (simp_all add: completePurchase_def validate_price_def Let_def)

lemma completePurchase_cases:
  "(\<exists>e. completePurchase io now userId i s = rolled_back e s) \<or>
   (\<exists>r d. find (\<lambda>r. res_id r = i \<and> user_id r = userId \<and> status r = Active) (reservations s)
        = Some r \<and>
      \<not> isExpired now r \<and> drops s (drop_id r) = Some d \<and> 0 \<le> price d)"
proof (cases "find (\<lambda>r. res_id r = i \<and> user_id r = userId \<and> status r = Active) (reservations s)")
  case None
  then show ?thesis using completePurchase_paths(1) by blast
next
  case (Some r)
  show ?thesis
  proof (cases "isExpired now r")
    case True
    then show ?thesis using Some completePurchase_paths(2) by blast
  next
    case False
    show ?thesis
    proof (cases "drops s (drop_id r)")
      case None
      then show ?thesis using Some False completePurchase_paths(3) by blast
    next
      case d: (Some d)
      show ?thesis
      proof (cases "price d < 0")
        case True
        then show ?thesis using Some False d completePurchase_paths(4) by blast
      next
        case nonneg: False
        then show ?thesis using Some False d by auto
      qed
    qed
  qed
qed

lemma cancelReservation_paths:
  "find (\<lambda>r. res_id r = i \<and> user_id r = userId \<and> status r = Active) (reservations s) = None \<Longrightarrow>
     cancelReservation io userId i s = rolled_back active_reservation_not_found s"
  "find (\<lambda>r. res_id r = i \<and> user_id r = userId \<and> status r = Active) (reservations s) = Some r \<Longrightarrow>
     drops s (drop_id r) = None \<Longrightarrow>
     cancelReservation io userId i s =
       \<lparr>response = Inr (),
        db_after = s\<lparr>reservations := set_status (res_id r) Expired (reservations s)\<rparr>,
        actions = [Commit]\<rparr>"
  "find (\<lambda>r. res_id r = i \<and> user_id r = userId \<and> status r = Active) (reservations s) = Some r \<Longrightarrow>
     drops s (drop_id r) = Some d \<Longrightarrow> drop_save d (d\<lparr>stock := stock d + 1\<rparr>) = Inl e \<Longrightarrow>
     cancelReservation io userId i s = rolled_back e s"
  "find (\<lambda>r. res_id r = i \<and> user_id r = userId \<and> status r = Active) (reservations s) = Some r \<Longrightarrow>
     drops s (drop_id r) = Some d \<Longrightarrow> drop_save d (d\<lparr>stock := stock d + 1\<rparr>) = Inr d' \<Longrightarrow>
     cancelReservation io userId i s =
       \<lparr>response = Inr (),
        db_after = s\<lparr>reservations := set_status (res_id r) Expired (reservations s),
                     drops := (drops s)(drop_id r \<mapsto> d')\<rparr>,
        actions = Commit # emits io
          [StockUpdate (drop_id r) (stock d'), ReservationCancelled (res_id r) (drop_id r)]\<rparr>"
  by (simp_all add: cancelReservation_def Let_def)

lemma cancelReservation_cases:
  "(\<exists>e. cancelReservation io userId i s = rolled_back e s) \<or>
   (\<exists>r. find (\<lambda>r. res_id r = i \<and> user_id r = userId \<and> status r = Active) (reservations s)
        = Some r \<and>
      (drops s (drop_id r) = None \<or>
       (\<exists>d. drops s (drop_id r) = Some d \<and>
          drop_save d (d\<lparr>stock := stock d + 1\<rparr>) = Inr (d\<lparr>stock := stock d + 1\<rparr>))))"
proof (cases "find (\<lambda>r. res_id r = i \<and> user_id r = userId \<and> status r = Active) (reservations s)")
  case None
  then show ?thesis using cancelReservation_paths(1) by blast
next
  case (Some r)
  show ?thesis
  proof (cases "drops s (drop_id r)")
    case None
    then show ?thesis using Some by blast
  next
    case d: (Some d)
    show ?thesis
    proof (cases "drop_save d (d\<lparr>stock := stock d + 1\<rparr>) = Inr (d\<lparr>stock := stock d + 1\<rparr>)")
      case True
      then show ?thesis using Some d by blast
    next
      case False
      then obtain e where "drop_save d (d\<lparr>stock := stock d + 1\<rparr>) = Inl e"
        using drop_save_result by blast
      then show ?thesis using Some d cancelReservation_paths(3) by blast
    qed
  qed
qed

text \<open>
  An active reservation of the user that has not expired, on a drop that exists with a
  price that is not negative, is completed.
\<close>

lemma completePurchase_succeeds:
  assumes "r \<in> set (reservations s)" and "distinct (map res_id (reservations s))"
    and "user_id r = userId" and "status r = Active" and "now \<le> expires_at r"
    and "drops s (drop_id r) = Some d" and "0 \<le> price d"
  shows "\<exists>out. response (completePurchase io now userId (res_id r) s) = Inr out"
proof -
  have found: "find (\<lambda>x. res_id x = res_id r \<and> user_id x = userId \<and> status x = Active)
      (reservations s) = Some r"
    using find_distinct_key [OF assms(2,1), of "\<lambda>x. user_id x = userId \<and> status x = Active"]
      assms(3,4) by simp
  have "\<not> isExpired now r" using assms(4,5) by (simp add: isExpired_def)
  from completePurchase_paths(5) [OF found this assms(6,7)] show ?thesis by simp
qed

text \<open>
  Claim C5. When \<^verbatim>\<open>completePurchase\<close> answers with success, the reservation named was
  an active one of this user and the clock had not passed its expiry: \<^verbatim>\<open>isExpired\<close> is
  \<^verbatim>\<open>new Date() > expires_at\<close>, so the purchase still goes through at the instant of the
  expiry itself, \<open>now \<le> expires_at\<close>. Afterwards that reservation is completed, exactly
  one purchase has been appended, whose price is the price the drop has in the database
  at this call (its time is in the table to the whole second, in the response as
  read), and the table of drops, so every stock, is as before. On a table whose ids are
  distinct the call succeeds exactly under these conditions, for a drop that exists
  with a price that is not negative.
\<close>

theorem completePurchase_success:
  "(\<forall>out. response (completePurchase io now userId reservationId s) = Inr out \<longrightarrow>
      (\<exists>r d. r \<in> set (reservations s) \<and> res_id r = reservationId \<and> user_id r = userId \<and>
         status r = Active \<and> now \<le> expires_at r \<and> drops s (drop_id r) = Some d \<and>
         db_after (completePurchase io now userId reservationId s) =
           s\<lparr>reservations := set_status reservationId Completed (reservations s),
             purchases := purchases s @
               [\<lparr>purchase_id = next_purchase_id s, purchase_user_id = userId,
                 purchase_drop_id = drop_id r, purchase_price = price d,
                 purchased_at = now - now mod 1000\<rparr>],
             next_purchase_id := Suc (next_purchase_id s)\<rparr> \<and>
         out = \<lparr>pr_purchase =
                  \<lparr>purchase_id = next_purchase_id s, purchase_user_id = userId,
                   purchase_drop_id = drop_id r, purchase_price = price d, purchased_at = now\<rparr>,
                pr_drop_id = drop_id r, pr_drop_name = name d\<rparr> \<and>
         drops (db_after (completePurchase io now userId reservationId s)) = drops s)) \<and>
   (distinct (map res_id (reservations s)) \<longrightarrow>
      ((\<exists>out. response (completePurchase io now userId reservationId s) = Inr out) \<longleftrightarrow>
       (\<exists>r d. r \<in> set (reservations s) \<and> res_id r = reservationId \<and> user_id r = userId \<and>
          status r = Active \<and> now \<le> expires_at r \<and> drops s (drop_id r) = Some d \<and>
          0 \<le> price d)))"
proof -
  have made: "\<exists>r d. r \<in> set (reservations s) \<and> res_id r = reservationId \<and> user_id r = userId \<and>
         status r = Active \<and> now \<le> expires_at r \<and> drops s (drop_id r) = Some d \<and>
         0 \<le> price d \<and>
         db_after (completePurchase io now userId reservationId s) =
           s\<lparr>reservations := set_status reservationId Completed (reservations s),
             purchases := purchases s @
               [\<lparr>purchase_id = next_purchase_id s, purchase_user_id = userId,
                 purchase_drop_id = drop_id r, purchase_price = price d,
                 purchased_at = now - now mod 1000\<rparr>],
             next_purchase_id := Suc (next_purchase_id s)\<rparr> \<and>
         out = \<lparr>pr_purchase =
                  \<lparr>purchase_id = next_purchase_id s, purchase_user_id = userId,
                   purchase_drop_id = drop_id r, purchase_price = price d, purchased_at = now\<rparr>,
                pr_drop_id = drop_id r, pr_drop_name = name d\<rparr> \<and>
         drops (db_after (completePurchase io now userId reservationId s)) = drops s"
    if ok: "response (completePurchase io now userId reservationId s) = Inr out" for out
  proof -
    have "\<not> (\<exists>e. completePurchase io now userId reservationId s = rolled_back e s)"
      using ok by (auto simp: rolled_back_def)
    then obtain r d where
      found: "find (\<lambda>r. res_id r = reservationId \<and> user_id r = userId \<and> status r = Active)
         (reservations s) = Some r"
      and fresh: "\<not> isExpired now r" and d: "drops s (drop_id r) = Some d" and p: "0 \<le> price d"
      using completePurchase_cases [of io now userId reservationId s] by blast
    note R = completePurchase_paths(5) [OF found fresh d p]
    have r: "r \<in> set (reservations s)" "res_id r = reservationId" "user_id r = userId"
      "status r = Active"
      using find_SomeD [OF found] by simp_all
    have t: "now \<le> expires_at r" using fresh by (simp add: isExpired_def)
    have out: "out = \<lparr>pr_purchase =
                \<lparr>purchase_id = next_purchase_id s, purchase_user_id = userId,
                 purchase_drop_id = drop_id r, purchase_price = price d, purchased_at = now\<rparr>,
              pr_drop_id = drop_id r, pr_drop_name = name d\<rparr>"
      using ok unfolding R by auto
    show ?thesis
      apply (rule exI [of _ r])
      apply (rule exI [of _ d])
      using r t d p out by (simp add: R DATETIME_def)
  qed
  have effect: "\<exists>r d. r \<in> set (reservations s) \<and> res_id r = reservationId \<and> user_id r = userId \<and>
         status r = Active \<and> now \<le> expires_at r \<and> drops s (drop_id r) = Some d \<and>
         db_after (completePurchase io now userId reservationId s) =
           s\<lparr>reservations := set_status reservationId Completed (reservations s),
             purchases := purchases s @
               [\<lparr>purchase_id = next_purchase_id s, purchase_user_id = userId,
                 purchase_drop_id = drop_id r, purchase_price = price d,
                 purchased_at = now - now mod 1000\<rparr>],
             next_purchase_id := Suc (next_purchase_id s)\<rparr> \<and>
         out = \<lparr>pr_purchase =
                  \<lparr>purchase_id = next_purchase_id s, purchase_user_id = userId,
                   purchase_drop_id = drop_id r, purchase_price = price d, purchased_at = now\<rparr>,
                pr_drop_id = drop_id r, pr_drop_name = name d\<rparr> \<and>
         drops (db_after (completePurchase io now userId reservationId s)) = drops s"
    if "response (completePurchase io now userId reservationId s) = Inr out" for out
    using made [OF that] by blast
  have only_if: "\<exists>r d. r \<in> set (reservations s) \<and> res_id r = reservationId \<and>
       user_id r = userId \<and> status r = Active \<and> now \<le> expires_at r \<and>
       drops s (drop_id r) = Some d \<and> 0 \<le> price d"
    if "\<exists>out. response (completePurchase io now userId reservationId s) = Inr out"
    using that made by blast
  have "if": "\<exists>out. response (completePurchase io now userId reservationId s) = Inr out"
    if pk: "distinct (map res_id (reservations s))"
      and "\<exists>r d. r \<in> set (reservations s) \<and> res_id r = reservationId \<and>
       user_id r = userId \<and> status r = Active \<and> now \<le> expires_at r \<and>
       drops s (drop_id r) = Some d \<and> 0 \<le> price d"
  proof -
    from that(2) obtain r d where r: "r \<in> set (reservations s)" and i: "res_id r = reservationId"
      and rest: "user_id r = userId" "status r = Active" "now \<le> expires_at r"
        "drops s (drop_id r) = Some d" "0 \<le> price d"
      by blast
    from completePurchase_succeeds [OF r pk rest, of io] show ?thesis unfolding i .
  qed
  show ?thesis
  proof (intro conjI allI impI iffI)
    fix out
    assume "response (completePurchase io now userId reservationId s) = Inr out"
    then show "\<exists>r d. r \<in> set (reservations s) \<and> res_id r = reservationId \<and> user_id r = userId \<and>
         status r = Active \<and> now \<le> expires_at r \<and> drops s (drop_id r) = Some d \<and>
         db_after (completePurchase io now userId reservationId s) =
           s\<lparr>reservations := set_status reservationId Completed (reservations s),
             purchases := purchases s @
               [\<lparr>purchase_id = next_purchase_id s, purchase_user_id = userId,
                 purchase_drop_id = drop_id r, purchase_price = price d,
                 purchased_at = now - now mod 1000\<rparr>],
             next_purchase_id := Suc (next_purchase_id s)\<rparr> \<and>
         out = \<lparr>pr_purchase =
                  \<lparr>purchase_id = next_purchase_id s, purchase_user_id = userId,
                   purchase_drop_id = drop_id r, purchase_price = price d, purchased_at = now\<rparr>,
                pr_drop_id = drop_id r, pr_drop_name = name d\<rparr> \<and>
         drops (db_after (completePurchase io now userId reservationId s)) = drops s"
      by (rule effect)
  next
    assume "\<exists>out. response (completePurchase io now userId reservationId s) = Inr out"
    then show "\<exists>r d. r \<in> set (reservations s) \<and> res_id r = reservationId \<and>
       user_id r = userId \<and> status r = Active \<and> now \<le> expires_at r \<and>
       drops s (drop_id r) = Some d \<and> 0 \<le> price d"
      by (rule only_if)
  next
    assume "distinct (map res_id (reservations s))"
      and "\<exists>r d. r \<in> set (reservations s) \<and> res_id r = reservationId \<and>
       user_id r = userId \<and> status r = Active \<and> now \<le> expires_at r \<and>
       drops s (drop_id r) = Some d \<and> 0 \<le> price d"
    then show "\<exists>out. response (completePurchase io now userId reservationId s) = Inr out"
      by (rule "if")
  qed
qed

theorem completePurchase_success_witness:
  "response (completePurchase True 2500 7 1 shop) =
     Inr \<lparr>pr_purchase =
            \<lparr>purchase_id = 2, purchase_user_id = 7, purchase_drop_id = 1,
             purchase_price = 19999, purchased_at = 2500\<rparr>,
          pr_drop_id = 1, pr_drop_name = ''Air Jordan 1''\<rparr> \<and>
   purchases (db_after (completePurchase True 2500 7 1 shop)) =
     purchases shop @
       [\<lparr>purchase_id = 2, purchase_user_id = 7, purchase_drop_id = 1,
         purchase_price = 19999, purchased_at = 2000\<rparr>] \<and>
   reservations (db_after (completePurchase True 2500 7 1 shop)) =
     [\<lparr>res_id = 1, user_id = 7, drop_id = 1, status = Completed, expires_at = 61000\<rparr>,
      \<lparr>res_id = 2, user_id = 8, drop_id = 2, status = Expired, expires_at = 61000\<rparr>,
      \<lparr>res_id = 3, user_id = 9, drop_id = 2, status = Completed, expires_at = 61000\<rparr>] \<and>
   drops (db_after (completePurchase True 2500 7 1 shop)) = drops shop"
proof -
  let ?r1 = "\<lparr>res_id = 1, user_id = 7, drop_id = 1, status = Active, expires_at = 61000\<rparr>"
  have pk: "distinct (map res_id (reservations shop))" by (simp add: shop_def)
  have "?r1 \<in> set (reservations shop) \<and> res_id ?r1 = 1 \<and> user_id ?r1 = 7 \<and>
      status ?r1 = Active \<and> 2500 \<le> expires_at ?r1 \<and> drops shop (drop_id ?r1) = Some jordan \<and>
      0 \<le> price jordan"
    by (simp add: shop_def jordan_def)
  then have "\<exists>r d. r \<in> set (reservations shop) \<and> res_id r = 1 \<and> user_id r = 7 \<and>
      status r = Active \<and> 2500 \<le> expires_at r \<and> drops shop (drop_id r) = Some d \<and>
      0 \<le> price d"
    by (intro exI [of _ ?r1] exI [of _ jordan])
  with completePurchase_success [of True 2500 7 1 shop, THEN conjunct2, THEN mp, OF pk]
  obtain out where ok: "response (completePurchase True 2500 7 1 shop) = Inr out"
    by blast
  from completePurchase_success [of True 2500 7 1 shop, THEN conjunct1, rule_format, OF ok]
  obtain r d where r: "r \<in> set (reservations shop)" "res_id r = 1"
    and d: "drops shop (drop_id r) = Some d"
    and after: "db_after (completePurchase True 2500 7 1 shop) =
       shop\<lparr>reservations := set_status 1 Completed (reservations shop),
         purchases := purchases shop @
           [\<lparr>purchase_id = next_purchase_id shop, purchase_user_id = 7,
             purchase_drop_id = drop_id r, purchase_price = price d,
             purchased_at = 2500 - 2500 mod 1000\<rparr>],
         next_purchase_id := Suc (next_purchase_id shop)\<rparr>"
    and out: "out = \<lparr>pr_purchase =
                  \<lparr>purchase_id = next_purchase_id shop, purchase_user_id = 7,
                   purchase_drop_id = drop_id r, purchase_price = price d, purchased_at = 2500\<rparr>,
                pr_drop_id = drop_id r, pr_drop_name = name d\<rparr>"
    and same: "drops (db_after (completePurchase True 2500 7 1 shop)) = drops shop"
    by blast
  have r1: "r = ?r1"
    using r by (auto simp: shop_def)
  have dj: "d = jordan" using d unfolding r1 by (simp add: shop_def)
  have rs: "set_status 1 Completed (reservations shop) =
     [\<lparr>res_id = 1, user_id = 7, drop_id = 1, status = Completed, expires_at = 61000\<rparr>,
      \<lparr>res_id = 2, user_id = 8, drop_id = 2, status = Expired, expires_at = 61000\<rparr>,
      \<lparr>res_id = 3, user_id = 9, drop_id = 2, status = Completed, expires_at = 61000\<rparr>]"
    by (simp add: set_status_def shop_def)
  have nx: "next_purchase_id shop = 2" by (simp add: shop_def)
  have pj: "price jordan = 19999" "name jordan = ''Air Jordan 1''" by (simp_all add: jordan_def)
  have res: "response (completePurchase True 2500 7 1 shop) =
     Inr \<lparr>pr_purchase =
            \<lparr>purchase_id = 2, purchase_user_id = 7, purchase_drop_id = 1,
             purchase_price = 19999, purchased_at = 2500\<rparr>,
          pr_drop_id = 1, pr_drop_name = ''Air Jordan 1''\<rparr>"
    unfolding ok out r1 dj nx pj by simp
  have ps: "purchases (db_after (completePurchase True 2500 7 1 shop)) =
     purchases shop @
       [\<lparr>purchase_id = 2, purchase_user_id = 7, purchase_drop_id = 1,
         purchase_price = 19999, purchased_at = 2000\<rparr>]"
    unfolding after r1 dj nx pj by simp
  have rs': "reservations (db_after (completePurchase True 2500 7 1 shop)) =
     [\<lparr>res_id = 1, user_id = 7, drop_id = 1, status = Completed, expires_at = 61000\<rparr>,
      \<lparr>res_id = 2, user_id = 8, drop_id = 2, status = Expired, expires_at = 61000\<rparr>,
      \<lparr>res_id = 3, user_id = 9, drop_id = 2, status = Completed, expires_at = 61000\<rparr>]"
    unfolding after rs by simp
  show ?thesis using res same ps rs' by (intro conjI)
qed

text \<open>
  The claim asks for a deadline after now. Reservation 1 of the example database
  expires at 61000, and at 61000 its holder still completes the purchase.
\<close>

theorem completePurchase_at_the_deadline:
  "\<lparr>res_id = 1, user_id = 7, drop_id = 1, status = Active, expires_at = 61000\<rparr>
     \<in> set (reservations shop) \<and>
   \<not> 61000 < expires_at \<lparr>res_id = 1, user_id = 7, drop_id = 1, status = Active,
       expires_at = 61000\<rparr> \<and>
   response (completePurchase True 61000 7 1 shop) =
     Inr \<lparr>pr_purchase =
            \<lparr>purchase_id = 2, purchase_user_id = 7, purchase_drop_id = 1,
             purchase_price = 19999, purchased_at = 61000\<rparr>,
          pr_drop_id = 1, pr_drop_name = ''Air Jordan 1''\<rparr> \<and>
   reservations (db_after (completePurchase True 61000 7 1 shop)) =
     [\<lparr>res_id = 1, user_id = 7, drop_id = 1, status = Completed, expires_at = 61000\<rparr>,
      \<lparr>res_id = 2, user_id = 8, drop_id = 2, status = Expired, expires_at = 61000\<rparr>,
      \<lparr>res_id = 3, user_id = 9, drop_id = 2, status = Completed, expires_at = 61000\<rparr>]"
  by (simp add: completePurchase_def shop_def isExpired_def jordan_def validate_price_def
      set_status_def Let_def)

text \<open>
  Claim C7. When \<^verbatim>\<open>cancelReservation\<close> answers with success, the reservation named was
  an active one of this user. The database after the call is the one before it with
  that reservation expired and, in the row of its drop, the stock one higher; nothing
  else differs. (For a reservation whose drop is not in the table the handler only
  expires the reservation.) Both writes belong to one transaction: a call that answers
  with a failure leaves the database as it was.
\<close>

theorem cancelReservation_success:
  "(response (cancelReservation io userId i s) = Inr u \<longrightarrow>
      (\<exists>r. r \<in> set (reservations s) \<and> res_id r = i \<and> user_id r = userId \<and> status r = Active \<and>
         (\<forall>d. drops s (drop_id r) = Some d \<longrightarrow>
            db_after (cancelReservation io userId i s) =
              s\<lparr>reservations := set_status i Expired (reservations s),
                drops := (drops s)(drop_id r \<mapsto> d\<lparr>stock := stock d + 1\<rparr>)\<rparr>) \<and>
         (drops s (drop_id r) = None \<longrightarrow>
            db_after (cancelReservation io userId i s) =
              s\<lparr>reservations := set_status i Expired (reservations s)\<rparr>))) \<and>
   (\<forall>e. response (cancelReservation io userId i s) = Inl e \<longrightarrow>
      db_after (cancelReservation io userId i s) = s)"
proof (intro conjI impI allI)
  assume ok: "response (cancelReservation io userId i s) = Inr u"
  then have "\<not> (\<exists>e. cancelReservation io userId i s = rolled_back e s)"
    by (auto simp: rolled_back_def)
  then obtain r where
    found: "find (\<lambda>r. res_id r = i \<and> user_id r = userId \<and> status r = Active) (reservations s)
       = Some r"
    and alt: "drops s (drop_id r) = None \<or>
       (\<exists>d. drops s (drop_id r) = Some d \<and>
          drop_save d (d\<lparr>stock := stock d + 1\<rparr>) = Inr (d\<lparr>stock := stock d + 1\<rparr>))"
    using cancelReservation_cases [of io userId i s] by blast
  have r: "r \<in> set (reservations s)" "res_id r = i" "user_id r = userId" "status r = Active"
    using find_SomeD [OF found] by simp_all
  have some: "db_after (cancelReservation io userId i s) =
       s\<lparr>reservations := set_status i Expired (reservations s),
         drops := (drops s)(drop_id r \<mapsto> d\<lparr>stock := stock d + 1\<rparr>)\<rparr>"
    if "drops s (drop_id r) = Some d" for d
    using alt that cancelReservation_paths(4) [OF found that] r(2) by auto
  have none: "db_after (cancelReservation io userId i s) =
       s\<lparr>reservations := set_status i Expired (reservations s)\<rparr>"
    if "drops s (drop_id r) = None"
    using cancelReservation_paths(2) [OF found that] r(2) by simp
  show "\<exists>r. r \<in> set (reservations s) \<and> res_id r = i \<and> user_id r = userId \<and> status r = Active \<and>
         (\<forall>d. drops s (drop_id r) = Some d \<longrightarrow>
            db_after (cancelReservation io userId i s) =
              s\<lparr>reservations := set_status i Expired (reservations s),
                drops := (drops s)(drop_id r \<mapsto> d\<lparr>stock := stock d + 1\<rparr>)\<rparr>) \<and>
         (drops s (drop_id r) = None \<longrightarrow>
            db_after (cancelReservation io userId i s) =
              s\<lparr>reservations := set_status i Expired (reservations s)\<rparr>)"
  proof (intro exI [of _ r] conjI allI impI)
    fix d
    assume "drops s (drop_id r) = Some d"
    then show "db_after (cancelReservation io userId i s) =
              s\<lparr>reservations := set_status i Expired (reservations s),
                drops := (drops s)(drop_id r \<mapsto> d\<lparr>stock := stock d + 1\<rparr>)\<rparr>"
      by (rule some)
  next
    assume "drops s (drop_id r) = None"
    then show "db_after (cancelReservation io userId i s) =
              s\<lparr>reservations := set_status i Expired (reservations s)\<rparr>"
      by (rule none)
  qed (simp_all add: r)
next
  fix e
  assume failed: "response (cancelReservation io userId i s) = Inl e"
  show "db_after (cancelReservation io userId i s) = s"
    using cancelReservation_cases [of io userId i s]
  proof (elim disjE exE conjE)
    fix e'
    assume "cancelReservation io userId i s = rolled_back e' s"
    then show ?thesis by (simp add: rolled_back_def)
  next
    fix r
    assume found: "find (\<lambda>r. res_id r = i \<and> user_id r = userId \<and> status r = Active)
        (reservations s) = Some r"
      and "drops s (drop_id r) = None"
    from cancelReservation_paths(2) [OF this] failed show ?thesis by simp
  next
    fix r d
    assume found: "find (\<lambda>r. res_id r = i \<and> user_id r = userId \<and> status r = Active)
        (reservations s) = Some r"
      and "drops s (drop_id r) = Some d"
      and "drop_save d (d\<lparr>stock := stock d + 1\<rparr>) = Inr (d\<lparr>stock := stock d + 1\<rparr>)"
    from cancelReservation_paths(4) [OF this] failed show ?thesis by simp
  qed
qed

theorem cancelReservation_success_witness:
  "response (cancelReservation True 7 1 shop) = Inr () \<and>
   db_after (cancelReservation True 7 1 shop) =
     shop\<lparr>reservations :=
            [\<lparr>res_id = 1, user_id = 7, drop_id = 1, status = Expired, expires_at = 61000\<rparr>,
             \<lparr>res_id = 2, user_id = 8, drop_id = 2, status = Expired, expires_at = 61000\<rparr>,
             \<lparr>res_id = 3, user_id = 9, drop_id = 2, status = Completed, expires_at = 61000\<rparr>],
          drops := (drops shop)(1 \<mapsto> jordan\<lparr>stock := 2\<rparr>)\<rparr> \<and>
   response (cancelReservation True 8 1 shop) = Inl active_reservation_not_found \<and>
   db_after (cancelReservation True 8 1 shop) = shop"
proof -
  note cancelled = cancelReservation_success [THEN conjunct1, rule_format]
  note undone = cancelReservation_success [THEN conjunct2, rule_format]
  have ok: "response (cancelReservation True 7 1 shop) = Inr ()"
    by (simp add: cancelReservation_def shop_def Let_def drop_save_def validate_changed_def validate_stock_def
        beforeUpdate_def jordan_def)
  from cancelled [OF ok]
  obtain r where r: "r \<in> set (reservations shop)" "res_id r = 1"
    and after: "\<And>d. drops shop (drop_id r) = Some d \<Longrightarrow>
        db_after (cancelReservation True 7 1 shop) =
          shop\<lparr>reservations := set_status 1 Expired (reservations shop),
            drops := (drops shop)(drop_id r \<mapsto> d\<lparr>stock := stock d + 1\<rparr>)\<rparr>"
    by blast
  have r1: "r = \<lparr>res_id = 1, user_id = 7, drop_id = 1, status = Active, expires_at = 61000\<rparr>"
    using r by (auto simp: shop_def)
  have dj: "drops shop (drop_id r) = Some jordan" unfolding r1 by (simp add: shop_def)
  have rs: "set_status 1 Expired (reservations shop) =
     [\<lparr>res_id = 1, user_id = 7, drop_id = 1, status = Expired, expires_at = 61000\<rparr>,
      \<lparr>res_id = 2, user_id = 8, drop_id = 2, status = Expired, expires_at = 61000\<rparr>,
      \<lparr>res_id = 3, user_id = 9, drop_id = 2, status = Completed, expires_at = 61000\<rparr>]"
    by (simp add: set_status_def shop_def)
  have sj: "stock jordan + 1 = 2" by (simp add: jordan_def)
  have db: "db_after (cancelReservation True 7 1 shop) =
     shop\<lparr>reservations :=
            [\<lparr>res_id = 1, user_id = 7, drop_id = 1, status = Expired, expires_at = 61000\<rparr>,
             \<lparr>res_id = 2, user_id = 8, drop_id = 2, status = Expired, expires_at = 61000\<rparr>,
             \<lparr>res_id = 3, user_id = 9, drop_id = 2, status = Completed, expires_at = 61000\<rparr>],
          drops := (drops shop)(1 \<mapsto> jordan\<lparr>stock := 2\<rparr>)\<rparr>"
    unfolding after [OF dj] rs sj r1 by simp
  have no: "response (cancelReservation True 8 1 shop) = Inl active_reservation_not_found"
    by (simp add: cancelReservation_def shop_def rolled_back_def)
  show ?thesis using ok db no undone [OF no] by (intro conjI)
qed

text \<open>
  An active reservation of the user, on a drop whose stock is below its initial stock,
  is cancelled.
\<close>

lemma cancelReservation_succeeds:
  assumes "r \<in> set (reservations s)" and "distinct (map res_id (reservations s))"
    and "user_id r = userId" and "status r = Active"
    and "drops s (drop_id r) = Some d" and "0 \<le> stock d" and "stock d < initial_stock d"
  shows "response (cancelReservation io userId (res_id r) s) = Inr ()"
proof -
  have found: "find (\<lambda>x. res_id x = res_id r \<and> user_id x = userId \<and> status x = Active)
      (reservations s) = Some r"
    using find_distinct_key [OF assms(2,1), of "\<lambda>x. user_id x = userId \<and> status x = Active"]
      assms(3,4) by simp
  have saved: "drop_save d (d\<lparr>stock := stock d + 1\<rparr>) = Inr (d\<lparr>stock := stock d + 1\<rparr>)"
    using assms(6,7) by (simp add: drop_save_def validate_changed_def validate_stock_def beforeUpdate_def)
  from cancelReservation_paths(4) [OF found assms(5) saved] show ?thesis by simp
qed

text \<open>
  On a drop whose stock already equals its initial stock the \<^verbatim>\<open>beforeUpdate\<close> hook throws:
  in the second example database the cancellation of reservation 2 by its holder fails
  and changes nothing.
\<close>

lemma cancelReservation_refused_at_ceiling:
  "response (cancelReservation True 7 2 crowded) = Inl stock_exceeds_initial \<and>
   db_after (cancelReservation True 7 2 crowded) = crowded"
  by (simp add: cancelReservation_def crowded_def drop_save_def validate_changed_def validate_stock_def
      beforeUpdate_def rolled_back_def Let_def)

text \<open>
  Claim C6. For a reservation that is expired or completed, \<^verbatim>\<open>cancelReservation\<close> and
  \<^verbatim>\<open>completePurchase\<close> answer 404 ``Active reservation not found'', whoever asks: the
  answer they give for an id that is not in the table at all, since the one query of
  each handler asks for the id, the user and the status \<^verbatim>\<open>active\<close> together. For an
  active reservation whose expiry has passed, \<^verbatim>\<open>completePurchase\<close> by its holder answers
  400 ``Reservation has expired''. In each case the database after the call is the
  database before it. The reservation is identified by its primary key.
\<close>

theorem terminal_or_expired_refused:
  assumes r: "r \<in> set (reservations s)" and pk: "distinct (map res_id (reservations s))"
  shows
    "((status r = Expired \<or> status r = Completed) \<longrightarrow>
        response (cancelReservation io userId (res_id r) s) =
          Inl (Rejected 404 ''Active reservation not found'') \<and>
        db_after (cancelReservation io userId (res_id r) s) = s \<and>
        response (completePurchase io now userId (res_id r) s) =
          Inl (Rejected 404 ''Active reservation not found'') \<and>
        db_after (completePurchase io now userId (res_id r) s) = s) \<and>
     (status r = Active \<and> user_id r = userId \<and> expires_at r < now \<longrightarrow>
        response (completePurchase io now userId (res_id r) s) =
          Inl (Rejected 400 ''Reservation has expired'') \<and>
        db_after (completePurchase io now userId (res_id r) s) = s) \<and>
     (\<forall>i. i \<notin> res_id ` set (reservations s) \<longrightarrow>
        response (cancelReservation io userId i s) =
          Inl (Rejected 404 ''Active reservation not found'') \<and>
        response (completePurchase io now userId i s) =
          Inl (Rejected 404 ''Active reservation not found''))"
proof (intro conjI impI allI)
  note found = find_distinct_key [OF pk r, of "\<lambda>x. user_id x = userId \<and> status x = Active"]
  {
    assume "status r = Expired \<or> status r = Completed"
    then have none: "find (\<lambda>x. res_id x = res_id r \<and> user_id x = userId \<and> status x = Active)
        (reservations s) = None"
      using found by auto
    show "response (cancelReservation io userId (res_id r) s) =
          Inl (Rejected 404 ''Active reservation not found'')"
      and "db_after (cancelReservation io userId (res_id r) s) = s"
      and "response (completePurchase io now userId (res_id r) s) =
          Inl (Rejected 404 ''Active reservation not found'')"
      and "db_after (completePurchase io now userId (res_id r) s) = s"
      by (simp_all add: cancelReservation_paths(1) [OF none] completePurchase_paths(1) [OF none]
          rolled_back_def active_reservation_not_found_def)
  }
  {
    assume "status r = Active \<and> user_id r = userId \<and> expires_at r < now"
    then have some: "find (\<lambda>x. res_id x = res_id r \<and> user_id x = userId \<and> status x = Active)
        (reservations s) = Some r" and late: "isExpired now r"
      using found by (simp_all add: isExpired_def)
    show "response (completePurchase io now userId (res_id r) s) =
          Inl (Rejected 400 ''Reservation has expired'')"
      and "db_after (completePurchase io now userId (res_id r) s) = s"
      by (simp_all add: completePurchase_paths(2) [OF some late] rolled_back_def
          reservation_expired_def)
  }
  fix i
  assume "i \<notin> res_id ` set (reservations s)"
  then have none: "find (\<lambda>x. res_id x = i \<and> user_id x = userId \<and> status x = Active)
      (reservations s) = None"
    by (auto simp: find_None_iff)
  show "response (cancelReservation io userId i s) =
          Inl (Rejected 404 ''Active reservation not found'')"
    and "response (completePurchase io now userId i s) =
          Inl (Rejected 404 ''Active reservation not found'')"
    by (simp_all add: cancelReservation_paths(1) [OF none] completePurchase_paths(1) [OF none]
        rolled_back_def active_reservation_not_found_def)
qed

theorem terminal_or_expired_refused_witness:
  "response (cancelReservation True 8 2 shop) =
     Inl (Rejected 404 ''Active reservation not found'') \<and>
   db_after (cancelReservation True 8 2 shop) = shop \<and>
   response (completePurchase True 2000 8 2 shop) =
     Inl (Rejected 404 ''Active reservation not found'') \<and>
   db_after (completePurchase True 2000 8 2 shop) = shop \<and>
   response (cancelReservation True 9 3 shop) =
     Inl (Rejected 404 ''Active reservation not found'') \<and>
   db_after (cancelReservation True 9 3 shop) = shop \<and>
   response (completePurchase True 2000 9 3 shop) =
     Inl (Rejected 404 ''Active reservation not found'') \<and>
   db_after (completePurchase True 2000 9 3 shop) = shop \<and>
   response (completePurchase True 61001 7 1 shop) =
     Inl (Rejected 400 ''Reservation has expired'') \<and>
   db_after (completePurchase True 61001 7 1 shop) = shop \<and>
   response (cancelReservation True 8 99 shop) =
     Inl (Rejected 404 ''Active reservation not found'') \<and>
   response (completePurchase True 2000 8 99 shop) =
     Inl (Rejected 404 ''Active reservation not found'')"
proof -
  let ?r1 = "\<lparr>res_id = 1, user_id = 7, drop_id = 1, status = Active, expires_at = 61000\<rparr>"
  let ?r2 = "\<lparr>res_id = 2, user_id = 8, drop_id = 2, status = Expired, expires_at = 61000\<rparr>"
  let ?r3 = "\<lparr>res_id = 3, user_id = 9, drop_id = 2, status = Completed, expires_at = 61000\<rparr>"
  let ?no = "Inl (Rejected 404 ''Active reservation not found'')"
  have pk: "distinct (map res_id (reservations shop))" by (simp add: shop_def)
  have in1: "?r1 \<in> set (reservations shop)" and in2: "?r2 \<in> set (reservations shop)"
    and in3: "?r3 \<in> set (reservations shop)"
    by (simp_all add: shop_def)
  have a: "response (cancelReservation True 8 (res_id ?r2) shop) = ?no \<and>
        db_after (cancelReservation True 8 (res_id ?r2) shop) = shop \<and>
        response (completePurchase True 2000 8 (res_id ?r2) shop) = ?no \<and>
        db_after (completePurchase True 2000 8 (res_id ?r2) shop) = shop"
    by (rule terminal_or_expired_refused [OF in2 pk, THEN conjunct1, rule_format]) simp
  have b: "response (cancelReservation True 9 (res_id ?r3) shop) = ?no \<and>
        db_after (cancelReservation True 9 (res_id ?r3) shop) = shop \<and>
        response (completePurchase True 2000 9 (res_id ?r3) shop) = ?no \<and>
        db_after (completePurchase True 2000 9 (res_id ?r3) shop) = shop"
    by (rule terminal_or_expired_refused [OF in3 pk, THEN conjunct1, rule_format]) simp
  have c: "response (completePurchase True 61001 7 (res_id ?r1) shop) =
          Inl (Rejected 400 ''Reservation has expired'') \<and>
        db_after (completePurchase True 61001 7 (res_id ?r1) shop) = shop"
    by (rule terminal_or_expired_refused [OF in1 pk, THEN conjunct2, THEN conjunct1, rule_format])
      simp
  have "(99::nat) \<notin> res_id ` set (reservations shop)" by (simp add: shop_def)
  from terminal_or_expired_refused [OF in1 pk, THEN conjunct2, THEN conjunct2, rule_format,
      OF this]
  have d: "response (cancelReservation True 8 99 shop) = ?no \<and>
        response (completePurchase True 2000 8 99 shop) = ?no" .
  have ids: "res_id ?r1 = 1" "res_id ?r2 = 2" "res_id ?r3 = 3" by simp_all
  show ?thesis using a b c d unfolding ids by (intro conjI) (elim conjE, assumption)+
qed

text \<open>
  The claim has these calls fail with \<^verbatim>\<open>StateConflict\<close>, the kind the specification
  keeps for a hold in the wrong state of its life, apart from \<^verbatim>\<open>NotFound\<close> for an unknown
  hold. The handlers do not tell the two apart: for the expired reservation 2 and the
  completed reservation 3 of the example database, asked for by their own holders,
  they answer what they answer for the id 99 that no reservation has, status 404 and
  ``Active reservation not found''.
\<close>

theorem terminal_hold_reported_not_found:
  "\<lparr>res_id = 2, user_id = 8, drop_id = 2, status = Expired, expires_at = 61000\<rparr>
     \<in> set (reservations shop) \<and>
   \<lparr>res_id = 3, user_id = 9, drop_id = 2, status = Completed, expires_at = 61000\<rparr>
     \<in> set (reservations shop) \<and>
   99 \<notin> res_id ` set (reservations shop) \<and>
   response (cancelReservation True 8 2 shop) =
     Inl (Rejected 404 ''Active reservation not found'') \<and>
   response (cancelReservation True 8 99 shop) =
     Inl (Rejected 404 ''Active reservation not found'') \<and>
   response (completePurchase True 2000 9 3 shop) =
     Inl (Rejected 404 ''Active reservation not found'') \<and>
   response (completePurchase True 2000 9 99 shop) =
     Inl (Rejected 404 ''Active reservation not found'')"
  by (simp add: cancelReservation_def completePurchase_def shop_def rolled_back_def
      active_reservation_not_found_def)

section \<open>One run of the expiration job\<close>

text \<open>The first loop expires the reservations it was given, by their ids.\<close>

lemma expire_loop_fold:
  "expire_loop ex rs upd =
     (fold (\<lambda>r. set_status (res_id r) Expired) ex rs, fold (\<lambda>r. bump (drop_id r)) ex upd)"
  by (induction ex arbitrary: rs upd) simp_all

lemma fold_set_status:
  "fold (\<lambda>r. set_status (res_id r) Expired) ex rs =
     map (\<lambda>x. if res_id x \<in> res_id ` set ex then x\<lparr>status := Expired\<rparr> else x) rs"
proof (induction ex arbitrary: rs)
  case Nil
  then show ?case by simp
next
  case (Cons a ex)
  have "fold (\<lambda>r. set_status (res_id r) Expired) (a # ex) rs =
      map (\<lambda>x. if res_id x \<in> res_id ` set ex then x\<lparr>status := Expired\<rparr> else x)
        (set_status (res_id a) Expired rs)"
    using Cons.IH by simp
  also have "\<dots> = map (\<lambda>x. if res_id x \<in> res_id ` set (a # ex) then x\<lparr>status := Expired\<rparr> else x) rs"
    by (simp add: set_status_def)
  finally show ?case .
qed

lemma key_in_filter:
  assumes "distinct (map key xs)" and "x \<in> set xs"
  shows "key x \<in> key ` set (filter P xs) \<longleftrightarrow> P x"
proof
  assume "key x \<in> key ` set (filter P xs)"
  then obtain y where y: "y \<in> set xs" "P y" "key x = key y" by auto
  have "inj_on key (set xs)" using assms(1) by (simp add: distinct_map)
  then have "x = y" using y assms(2) by (auto dest: inj_onD)
  then show "P x" using y by simp
next
  assume "P x"
  then show "key x \<in> key ` set (filter P xs)" using assms(2) by auto
qed

lemma expire_due:
  assumes "distinct (map res_id rs)"
  shows "fold (\<lambda>r. set_status (res_id r) Expired) (filter (due now) rs) rs =
     map (\<lambda>r. if due now r then r\<lparr>status := Expired\<rparr> else r) rs"
  unfolding fold_set_status
proof (rule map_cong [OF refl])
  fix x
  assume "x \<in> set rs"
  from key_in_filter [OF assms this, of "due now"]
  show "(if res_id x \<in> res_id ` set (filter (due now) rs) then x\<lparr>status := Expired\<rparr> else x) =
      (if due now x then x\<lparr>status := Expired\<rparr> else x)"
    by (cases "due now x") simp_all
qed

text \<open>The entries of the object: how many times a key was bumped.\<close>

lemma bump_keys: "fst ` set (bump k upd) = insert k (fst ` set upd)"
  by (induction k upd rule: bump.induct) auto

lemma bump_sorted:
  "sorted_wrt (<) (map fst upd) \<Longrightarrow> sorted_wrt (<) (map fst (bump k upd))"
proof (induction k upd rule: bump.induct)
  case (1 k)
  then show ?case by simp
next
  case (2 k k' c kvs)
  show ?case
  proof (cases "k = k' \<or> k < k'")
    case True
    then show ?thesis using "2.prems" by auto
  next
    case False
    then have "k' < k" by simp
    moreover have "sorted_wrt (<) (map fst (bump k kvs))"
      using "2.IH" False "2.prems" by simp
    moreover have "\<forall>j \<in> fst ` set (bump k kvs). k' < j"
      using "2.prems" \<open>k' < k\<close> unfolding bump_keys by auto
    ultimately show ?thesis using False by simp
  qed
qed

lemma map_of_bump:
  "sorted_wrt (<) (map fst upd) \<Longrightarrow>
     map_of (bump k upd) = (map_of upd)(k \<mapsto> (case map_of upd k of None \<Rightarrow> 1 | Some c \<Rightarrow> c + 1))"
proof (induction k upd rule: bump.induct)
  case (1 k)
  then show ?case by simp
next
  case (2 k k' c kvs)
  consider "k = k'" | "k < k'" | "k' < k" by linarith
  then show ?case
  proof cases
    case 1
    then show ?thesis by auto
  next
    case 2
    have "\<forall>j \<in> fst ` set kvs. k' < j" using "2.prems" by auto
    then have "k \<notin> fst ` set kvs" using 2 by auto
    then have "map_of kvs k = None" by (simp add: map_of_eq_None_iff)
    then show ?thesis using 2 by (auto simp: fun_eq_iff)
  next
    case 3
    let ?v = "case map_of kvs k of None \<Rightarrow> 1 | Some c \<Rightarrow> c + 1"
    have tail: "sorted_wrt (<) (map fst kvs)" using "2.prems" by simp
    have "k \<noteq> k'" and "\<not> k < k'" using 3 by simp_all
    then have IH: "map_of (bump k kvs) = (map_of kvs)(k \<mapsto> ?v)"
      using tail by (rule "2.IH")
    have "map_of (bump k ((k', c) # kvs)) = (map_of (bump k kvs))(k' \<mapsto> c)"
      using 3 by simp
    also have "\<dots> = ((map_of kvs)(k \<mapsto> ?v))(k' \<mapsto> c)"
      by (simp only: IH)
    also have "\<dots> = ((map_of kvs)(k' \<mapsto> c))(k \<mapsto> ?v)"
      using 3 by (simp add: fun_upd_twist)
    also have "\<dots> = (map_of ((k', c) # kvs))
        (k \<mapsto> (case map_of ((k', c) # kvs) k of None \<Rightarrow> 1 | Some c \<Rightarrow> c + 1))"
      using 3 by simp
    finally show ?thesis .
  qed
qed

lemma fold_bump_sorted:
  "sorted_wrt (<) (map fst upd) \<Longrightarrow> sorted_wrt (<) (map fst (fold (\<lambda>r. bump (drop_id r)) ex upd))"
  by (induction ex arbitrary: upd) (simp_all add: bump_sorted)

lemma fold_bump_count:
  "sorted_wrt (<) (map fst upd) \<Longrightarrow>
     (case map_of (fold (\<lambda>r. bump (drop_id r)) ex upd) k of None \<Rightarrow> 0 | Some c \<Rightarrow> c) =
     (case map_of upd k of None \<Rightarrow> 0 | Some c \<Rightarrow> c) + length (filter (\<lambda>r. drop_id r = k) ex)"
proof (induction ex arbitrary: upd)
  case Nil
  then show ?case by simp
next
  case (Cons a ex)
  have "(case map_of (fold (\<lambda>r. bump (drop_id r)) ex (bump (drop_id a) upd)) k of
           None \<Rightarrow> 0 | Some c \<Rightarrow> c) =
        (case map_of (bump (drop_id a) upd) k of None \<Rightarrow> 0 | Some c \<Rightarrow> c) +
          length (filter (\<lambda>r. drop_id r = k) ex)"
    using Cons.IH [OF bump_sorted [OF Cons.prems]] .
  then show ?case
    by (simp add: map_of_bump [OF Cons.prems] split: option.splits)
qed

lemma sorted_keys_distinct: "sorted_wrt (<) (map fst (upd :: (nat \<times> nat) list)) \<Longrightarrow> distinct (map fst upd)"
  by (simp add: strict_sorted_iff)

text \<open>The second loop, when no save throws.\<close>

lemma return_stock_None:
  assumes "distinct (map fst upd)" and "return_stock io upd ds = (None, ds', lg)"
  shows "ds' k =
     map_option (\<lambda>d. d\<lparr>stock := stock d + int (case map_of upd k of None \<Rightarrow> 0 | Some c \<Rightarrow> c)\<rparr>)
       (ds k)"
  using assms
proof (induction upd arbitrary: ds ds' lg)
  case Nil
  then show ?case by (cases "ds k") simp_all
next
  case (Cons entry rest)
  obtain j n where entry: "entry = (j, n)" by (cases entry)
  have rest: "distinct (map fst rest)" and fresh: "map_of rest j = None"
    using Cons.prems(1) entry by (auto simp: map_of_eq_None_iff)
  show ?case
  proof (cases "ds j")
    case None
    then have "return_stock io rest ds = (None, ds', lg)"
      using Cons.prems(2) entry by simp
    from Cons.IH [OF rest this] show ?thesis
      using None entry fresh by (cases "k = j") simp_all
  next
    case (Some d)
    have saved: "drop_save d (d\<lparr>stock := stock d + int n\<rparr>) = Inr (d\<lparr>stock := stock d + int n\<rparr>)"
      using drop_save_result [of d "d\<lparr>stock := stock d + int n\<rparr>"] Cons.prems(2) entry Some
      by auto
    obtain lg' where "return_stock io rest (ds(j \<mapsto> d\<lparr>stock := stock d + int n\<rparr>)) = (None, ds', lg')"
      using Cons.prems(2) entry Some saved by (auto split: prod.splits)
    from Cons.IH [OF rest this] show ?thesis
      using Some entry fresh by (cases "k = j") simp_all
  qed
qed

lemma bump_positive:
  "\<forall>(k, c) \<in> set upd. 0 < c \<Longrightarrow> \<forall>(k, c) \<in> set (bump j upd). 0 < c"
  by (induction j upd rule: bump.induct) auto

lemma fold_bump_positive:
  "\<forall>(k, c) \<in> set upd. 0 < c \<Longrightarrow> \<forall>(k, c) \<in> set (fold (\<lambda>r. bump (drop_id r)) ex upd). 0 < c"
proof (induction ex arbitrary: upd)
  case Nil
  then show ?case by simp
next
  case (Cons a ex)
  from Cons.IH [OF bump_positive [OF Cons.prems]] show ?case by simp
qed

lemma dropStockUpdates_entries:
  fixes now rs
  defines "upd \<equiv> snd (expire_loop (filter (due now) rs) rs [])"
  shows "distinct (map fst upd)"
    and "(case map_of upd k of None \<Rightarrow> 0 | Some c \<Rightarrow> c) =
           length (filter (\<lambda>r. due now r \<and> drop_id r = k) rs)"
    and "\<forall>(k, n) \<in> set upd. 0 < n \<and> n = length (filter (\<lambda>r. due now r \<and> drop_id r = k) rs)"
proof -
  have upd: "upd = fold (\<lambda>r. bump (drop_id r)) (filter (due now) rs) []"
    by (simp add: upd_def expire_loop_fold)
  have sorted: "sorted_wrt (<) (map fst upd)"
    unfolding upd by (rule fold_bump_sorted) simp
  then show d: "distinct (map fst upd)" by (rule sorted_keys_distinct)
  show c: "(case map_of upd k of None \<Rightarrow> 0 | Some c \<Rightarrow> c) =
           length (filter (\<lambda>r. due now r \<and> drop_id r = k) rs)" for k
    unfolding upd using fold_bump_count [of "[]" "filter (due now) rs" k]
    by (simp add: conj_commute)
  have pos: "\<forall>(k, c) \<in> set upd. 0 < c"
    unfolding upd by (rule fold_bump_positive) simp
  show "\<forall>(k, n) \<in> set upd. 0 < n \<and> n = length (filter (\<lambda>r. due now r \<and> drop_id r = k) rs)"
  proof (clarify, intro conjI)
    fix k n
    assume in_upd: "(k, n) \<in> set upd"
    then show "0 < n" using pos by auto
    have "map_of upd k = Some n" using d in_upd by simp
    then show "n = length (filter (\<lambda>r. due now r \<and> drop_id r = k) rs)"
      using c [of k] by simp
  qed
qed

lemma processExpiredReservations_paths:
  "filter (due now) (reservations s) = [] \<Longrightarrow>
     processExpiredReservations io now s = \<lparr>response = Inr (), db_after = s, actions = [Commit]\<rparr>"
  "filter (due now) (reservations s) \<noteq> [] \<Longrightarrow>
     return_stock io (snd (expire_loop (filter (due now) (reservations s)) (reservations s) []))
       (drops s) = (Some e, ds', lg) \<Longrightarrow>
     processExpiredReservations io now s =
       \<lparr>response = Inl e, db_after = s, actions = lg @ [Rollback]\<rparr>"
  "filter (due now) (reservations s) \<noteq> [] \<Longrightarrow>
     return_stock io (snd (expire_loop (filter (due now) (reservations s)) (reservations s) []))
       (drops s) = (None, ds', lg) \<Longrightarrow>
     processExpiredReservations io now s =
       \<lparr>response = Inr (),
        db_after = s\<lparr>reservations :=
             fst (expire_loop (filter (due now) (reservations s)) (reservations s) []),
           drops := ds'\<rparr>,
        actions = lg @ [Commit]\<rparr>"
proof -
  obtain rs' upd where loop: "expire_loop (filter (due now) (reservations s)) (reservations s) []
      = (rs', upd)"
    by (cases "expire_loop (filter (due now) (reservations s)) (reservations s) []")
  show "filter (due now) (reservations s) = [] \<Longrightarrow>
     processExpiredReservations io now s = \<lparr>response = Inr (), db_after = s, actions = [Commit]\<rparr>"
    by (simp add: processExpiredReservations_def)
  show "filter (due now) (reservations s) \<noteq> [] \<Longrightarrow>
     return_stock io (snd (expire_loop (filter (due now) (reservations s)) (reservations s) []))
       (drops s) = (Some e, ds', lg) \<Longrightarrow>
     processExpiredReservations io now s =
       \<lparr>response = Inl e, db_after = s, actions = lg @ [Rollback]\<rparr>"
    by (simp add: processExpiredReservations_def loop)
  show "filter (due now) (reservations s) \<noteq> [] \<Longrightarrow>
     return_stock io (snd (expire_loop (filter (due now) (reservations s)) (reservations s) []))
       (drops s) = (None, ds', lg) \<Longrightarrow>
     processExpiredReservations io now s =
       \<lparr>response = Inr (),
        db_after = s\<lparr>reservations :=
             fst (expire_loop (filter (due now) (reservations s)) (reservations s) []),
           drops := ds'\<rparr>,
        actions = lg @ [Commit]\<rparr>"
    by (simp add: processExpiredReservations_def loop)
qed

text \<open>
  When the second loop gets through: every drop counted takes its credit, that is, the
  new stock passes \<^verbatim>\<open>min 0\<close> and the \<^verbatim>\<open>beforeUpdate\<close> hook.
\<close>

lemma return_stock_commits:
  assumes "distinct (map fst upd)" and "\<forall>(k, n) \<in> set upd. 0 < n"
  shows "fst (return_stock io upd ds) = None \<longleftrightarrow>
     (\<forall>(k, n) \<in> set upd. \<forall>d. ds k = Some d \<longrightarrow>
        0 \<le> stock d + int n \<and> stock d + int n \<le> initial_stock d)"
  using assms
proof (induction upd arbitrary: ds)
  case Nil
  then show ?case by simp
next
  case (Cons entry rest)
  obtain j n where entry: "entry = (j, n)" by (cases entry)
  have rest: "distinct (map fst rest)" "\<forall>(k, n) \<in> set rest. 0 < n"
    and fresh: "j \<notin> fst ` set rest" and n: "0 < n"
    using Cons.prems entry by auto
  show ?case
  proof (cases "ds j")
    case None
    then show ?thesis using Cons.IH [OF rest, of ds] entry by simp
  next
    case (Some d)
    let ?d = "d\<lparr>stock := stock d + int n\<rparr>"
    show ?thesis
    proof (cases "drop_save d ?d = Inr ?d")
      case True
      then have ok: "0 \<le> stock d + int n \<and> stock d + int n \<le> initial_stock d"
        using n by (simp add: drop_save_stock)
      have same: "(ds(j \<mapsto> ?d)) k = ds k" if "(k, m) \<in> set rest" for k m
      proof -
        have "k \<in> fst ` set rest" using that by force
        then show ?thesis using fresh by auto
      qed
      have "fst (return_stock io (entry # rest) ds) = fst (return_stock io rest (ds(j \<mapsto> ?d)))"
        using entry Some True by (simp split: prod.splits)
      also have "\<dots> = None \<longleftrightarrow>
          (\<forall>(k, n) \<in> set rest. \<forall>d. (ds(j \<mapsto> ?d)) k = Some d \<longrightarrow>
             0 \<le> stock d + int n \<and> stock d + int n \<le> initial_stock d)"
        by (rule Cons.IH [OF rest])
      also have "\<dots> \<longleftrightarrow>
          (\<forall>(k, n) \<in> set rest. \<forall>d. ds k = Some d \<longrightarrow>
             0 \<le> stock d + int n \<and> stock d + int n \<le> initial_stock d)"
        using same by auto
      finally show ?thesis using entry Some ok by simp
    next
      case False
      then obtain e where e: "drop_save d ?d = Inl e" using drop_save_result by blast
      have "\<not> (0 \<le> stock d + int n \<and> stock d + int n \<le> initial_stock d)"
        using False n by (auto simp: drop_save_stock)
      then show ?thesis using entry Some e by auto
    qed
  qed
qed

lemma dropStockUpdates_counted:
  fixes now rs
  defines "upd \<equiv> snd (expire_loop (filter (due now) rs) rs [])"
  shows "(k, n) \<in> set upd \<longleftrightarrow>
     0 < n \<and> n = length (filter (\<lambda>r. due now r \<and> drop_id r = k) rs)"
proof
  assume "(k, n) \<in> set upd"
  then show "0 < n \<and> n = length (filter (\<lambda>r. due now r \<and> drop_id r = k) rs)"
    using dropStockUpdates_entries(3) [of now rs] unfolding upd_def by auto
next
  assume a: "0 < n \<and> n = length (filter (\<lambda>r. due now r \<and> drop_id r = k) rs)"
  have "(case map_of upd k of None \<Rightarrow> 0 | Some c \<Rightarrow> c) = n"
    using a dropStockUpdates_entries(2) [of now rs k] unfolding upd_def by simp
  then have "map_of upd k = Some n"
    using a by (cases "map_of upd k") auto
  then show "(k, n) \<in> set upd" by (rule map_of_SomeD)
qed

text \<open>
  Claim C8. One run of \<^verbatim>\<open>processExpiredReservations\<close> on a table whose ids are distinct
  (\<^verbatim>\<open>id\<close> is the primary key). The reservations it takes are the active ones whose
  expiry is before now cut to the whole second. The run commits exactly when every
  drop that has such reservations can take them back: its stock plus their number is
  neither negative nor above its initial stock. When the run commits, every
  reservation taken is expired and every other reservation is as it was; the stock of
  every drop is higher by the number of its reservations taken, so a reservation that
  was already expired or completed credits nothing; nothing else in the database
  differs. The credits are the entries of \<^verbatim>\<open>dropStockUpdates\<close>: one entry per drop,
  holding that number, each saved once by the second loop. When no reservation is
  taken the run commits the database unchanged. When the run fails, the database is
  the one it started from.
\<close>

theorem processExpiredReservations_tick:
  assumes pk: "distinct (map res_id (reservations s))"
  shows
    "(\<forall>r. due now r \<longleftrightarrow> status r = Active \<and> expires_at r < now - now mod 1000) \<and>
     (response (processExpiredReservations io now s) = Inr () \<longleftrightarrow>
        (\<forall>k d. drops s k = Some d \<and>
           0 < length (filter (\<lambda>r. due now r \<and> drop_id r = k) (reservations s)) \<longrightarrow>
           0 \<le> stock d + int (length (filter (\<lambda>r. due now r \<and> drop_id r = k) (reservations s))) \<and>
           stock d + int (length (filter (\<lambda>r. due now r \<and> drop_id r = k) (reservations s)))
             \<le> initial_stock d)) \<and>
     (response (processExpiredReservations io now s) = Inr () \<longrightarrow>
        db_after (processExpiredReservations io now s) =
          s\<lparr>reservations :=
               map (\<lambda>r. if due now r then r\<lparr>status := Expired\<rparr> else r) (reservations s),
            drops := (\<lambda>k. map_option
               (\<lambda>d. d\<lparr>stock := stock d +
                  int (length (filter (\<lambda>r. due now r \<and> drop_id r = k) (reservations s)))\<rparr>)
               (drops s k))\<rparr>) \<and>
     (\<forall>(k, n) \<in> set (snd (expire_loop (filter (due now) (reservations s)) (reservations s) [])).
        0 < n \<and> n = length (filter (\<lambda>r. due now r \<and> drop_id r = k) (reservations s))) \<and>
     distinct (map fst (snd (expire_loop (filter (due now) (reservations s)) (reservations s) []))) \<and>
     ((\<forall>r \<in> set (reservations s). \<not> due now r) \<longrightarrow>
        response (processExpiredReservations io now s) = Inr () \<and>
        db_after (processExpiredReservations io now s) = s) \<and>
     (\<forall>e. response (processExpiredReservations io now s) = Inl e \<longrightarrow>
        db_after (processExpiredReservations io now s) = s)"
proof (intro conjI impI allI)
  let ?ex = "filter (due now) (reservations s)"
  let ?upd = "snd (expire_loop ?ex (reservations s) [])"
  let ?n = "\<lambda>k. length (filter (\<lambda>r. due now r \<and> drop_id r = k) (reservations s))"
  show "due now r \<longleftrightarrow> status r = Active \<and> expires_at r < now - now mod 1000" for r
    by (simp add: due_def DATETIME_def)
  show entries: "\<forall>(k, n) \<in> set ?upd. 0 < n \<and> n = ?n k"
    by (rule dropStockUpdates_entries(3))
  show keys: "distinct (map fst ?upd)"
    by (rule dropStockUpdates_entries(1))
  have pos: "\<forall>(k, n) \<in> set ?upd. 0 < n" using entries by auto
  show "response (processExpiredReservations io now s) = Inr () \<longleftrightarrow>
      (\<forall>k d. drops s k = Some d \<and> 0 < ?n k \<longrightarrow>
         0 \<le> stock d + int (?n k) \<and> stock d + int (?n k) \<le> initial_stock d)"
  proof (cases "?ex = []")
    case True
    then have none: "\<forall>r \<in> set (reservations s). \<not> due now r"
      by (simp add: filter_empty_conv)
    then have "?n k = 0" for k by simp
    then show ?thesis using processExpiredReservations_paths(1) [OF True] by simp
  next
    case False
    obtain res ds' lg where rs: "return_stock io ?upd (drops s) = (res, ds', lg)"
      by (cases "return_stock io ?upd (drops s)")
    have "response (processExpiredReservations io now s) = Inr () \<longleftrightarrow> res = None"
    proof (cases res)
      case None
      with processExpiredReservations_paths(3) [OF False] rs show ?thesis by simp
    next
      case (Some e)
      with processExpiredReservations_paths(2) [OF False] rs show ?thesis by simp
    qed
    also have "res = None \<longleftrightarrow> fst (return_stock io ?upd (drops s)) = None"
      using rs by simp
    also have "\<dots> \<longleftrightarrow> (\<forall>(k, n) \<in> set ?upd. \<forall>d. drops s k = Some d \<longrightarrow>
        0 \<le> stock d + int n \<and> stock d + int n \<le> initial_stock d)"
      by (rule return_stock_commits [OF keys pos])
    also have "\<dots> \<longleftrightarrow> (\<forall>k d. drops s k = Some d \<and> 0 < ?n k \<longrightarrow>
         0 \<le> stock d + int (?n k) \<and> stock d + int (?n k) \<le> initial_stock d)"
    proof (intro iffI allI impI)
      fix k d
      assume all: "\<forall>(k, n) \<in> set ?upd. \<forall>d. drops s k = Some d \<longrightarrow>
          0 \<le> stock d + int n \<and> stock d + int n \<le> initial_stock d"
        and kd: "drops s k = Some d \<and> 0 < ?n k"
      then have "(k, ?n k) \<in> set ?upd"
        by (simp add: dropStockUpdates_counted)
      then show "0 \<le> stock d + int (?n k) \<and> stock d + int (?n k) \<le> initial_stock d"
        using all kd by blast
    next
      assume all: "\<forall>k d. drops s k = Some d \<and> 0 < ?n k \<longrightarrow>
          0 \<le> stock d + int (?n k) \<and> stock d + int (?n k) \<le> initial_stock d"
      show "\<forall>(k, n) \<in> set ?upd. \<forall>d. drops s k = Some d \<longrightarrow>
          0 \<le> stock d + int n \<and> stock d + int n \<le> initial_stock d"
      proof (clarify)
        fix k n d
        assume m: "(k, n) \<in> set ?upd" and d: "drops s k = Some d"
        from m have "0 < n \<and> n = ?n k" by (rule dropStockUpdates_counted [THEN iffD1])
        then have n: "n = ?n k" and "0 < ?n k" by auto
        then have "drops s k = Some d \<and> 0 < ?n k" using d by (intro conjI)
        then have "0 \<le> stock d + int (?n k) \<and> stock d + int (?n k) \<le> initial_stock d"
          by (rule all [rule_format])
        then show "0 \<le> stock d + int n \<and> stock d + int n \<le> initial_stock d"
          unfolding n .
      qed
    qed
    finally show ?thesis .
  qed
  {
    assume "\<forall>r \<in> set (reservations s). \<not> due now r"
    then have "?ex = []" by (simp add: filter_empty_conv)
    from processExpiredReservations_paths(1) [OF this]
    show "response (processExpiredReservations io now s) = Inr ()"
      and "db_after (processExpiredReservations io now s) = s"
      by simp_all
  }
  {
    fix e
    assume failed: "response (processExpiredReservations io now s) = Inl e"
    then have some: "?ex \<noteq> []"
      using processExpiredReservations_paths(1) [of now s io] by auto
    obtain res ds' lg where rs: "return_stock io ?upd (drops s) = (res, ds', lg)"
      by (cases "return_stock io ?upd (drops s)")
    show "db_after (processExpiredReservations io now s) = s"
    proof (cases res)
      case None
      with processExpiredReservations_paths(3) [OF some] rs failed show ?thesis by simp
    next
      case (Some e')
      with processExpiredReservations_paths(2) [OF some] rs show ?thesis by simp
    qed
  }
  assume ok: "response (processExpiredReservations io now s) = Inr ()"
  show "db_after (processExpiredReservations io now s) =
          s\<lparr>reservations :=
               map (\<lambda>r. if due now r then r\<lparr>status := Expired\<rparr> else r) (reservations s),
            drops := (\<lambda>k. map_option (\<lambda>d. d\<lparr>stock := stock d + int (?n k)\<rparr>) (drops s k))\<rparr>"
  proof (cases "?ex = []")
    case True
    then have none: "\<forall>r \<in> set (reservations s). \<not> due now r"
      by (simp add: filter_empty_conv)
    have "map (\<lambda>r. if due now r then r\<lparr>status := Expired\<rparr> else r) (reservations s) = reservations s"
      using none by (simp add: map_idI)
    moreover have "?n k = 0" for k using none by simp
    then have "(\<lambda>k. map_option (\<lambda>d. d\<lparr>stock := stock d + int (?n k)\<rparr>) (drops s k)) = drops s"
      by (simp add: fun_eq_iff option.map_ident)
    ultimately show ?thesis
      using processExpiredReservations_paths(1) [OF True] by simp
  next
    case False
    obtain res ds' lg where rs: "return_stock io ?upd (drops s) = (res, ds', lg)"
      by (cases "return_stock io ?upd (drops s)")
    have res: "res = None"
    proof (cases res)
      case (Some e')
      with processExpiredReservations_paths(2) [OF False] rs ok show ?thesis by simp
    qed simp
    have "ds' k = map_option (\<lambda>d. d\<lparr>stock := stock d + int (?n k)\<rparr>) (drops s k)" for k
      using return_stock_None [OF keys rs [unfolded res], of k]
      by (simp only: dropStockUpdates_entries(2))
    then have ds': "ds' = (\<lambda>k. map_option (\<lambda>d. d\<lparr>stock := stock d + int (?n k)\<rparr>) (drops s k))"
      by (simp add: fun_eq_iff)
    have "fst (expire_loop ?ex (reservations s) []) =
        map (\<lambda>r. if due now r then r\<lparr>status := Expired\<rparr> else r) (reservations s)"
      by (simp add: expire_loop_fold expire_due [OF pk])
    then show ?thesis
      using processExpiredReservations_paths(3) [OF False rs [unfolded res]] ds' by simp
  qed
qed

text \<open>
  On the database with five reservations, at 70000, the run takes reservations 1 and 3
  of drop 1 and reservation 2 of drop 2: drop 1 gets two pairs back at once, drop 2
  one; the reservation until 90000 and the completed one are as before. On the first
  example database at 2000 nothing is due. On the second at 70000 the save of drop 2
  throws and nothing is changed.
\<close>

theorem processExpiredReservations_tick_witness:
  "response (processExpiredReservations True 70000 queue) = Inr () \<and>
   reservations (db_after (processExpiredReservations True 70000 queue)) =
     [\<lparr>res_id = 1, user_id = 7, drop_id = 1, status = Expired, expires_at = 61000\<rparr>,
      \<lparr>res_id = 2, user_id = 8, drop_id = 2, status = Expired, expires_at = 61000\<rparr>,
      \<lparr>res_id = 3, user_id = 9, drop_id = 1, status = Expired, expires_at = 62000\<rparr>,
      \<lparr>res_id = 4, user_id = 7, drop_id = 2, status = Completed, expires_at = 62000\<rparr>,
      \<lparr>res_id = 5, user_id = 5, drop_id = 1, status = Active, expires_at = 90000\<rparr>] \<and>
   drops (db_after (processExpiredReservations True 70000 queue)) 1 =
     Some \<lparr>name = ''Air Jordan 1'', price = 19999, stock = 2, initial_stock = 3,
           drop_start_time = None\<rparr> \<and>
   drops (db_after (processExpiredReservations True 70000 queue)) 2 =
     Some \<lparr>name = ''Dunk Low'', price = 12000, stock = 1, initial_stock = 2,
           drop_start_time = None\<rparr> \<and>
   snd (expire_loop (filter (due 70000) (reservations queue)) (reservations queue) []) =
     [(1, 2), (2, 1)] \<and>
   db_after (processExpiredReservations True 2000 shop) = shop \<and>
   response (processExpiredReservations True 70000 crowded) = Inl stock_exceeds_initial \<and>
   db_after (processExpiredReservations True 70000 crowded) = crowded"
proof -
  have pk: "distinct (map res_id (reservations shop))" by (simp add: shop_def)
  have pk': "distinct (map res_id (reservations crowded))" by (simp add: crowded_def)
  have pk'': "distinct (map res_id (reservations queue))" by (simp add: queue_def)
  note commits = processExpiredReservations_tick [OF pk'', THEN conjunct2, THEN conjunct1,
      THEN iffD2]
  note tick = processExpiredReservations_tick [OF pk'', THEN conjunct2, THEN conjunct2,
      THEN conjunct1, rule_format]
  note idle = processExpiredReservations_tick [OF pk, THEN conjunct2, THEN conjunct2,
      THEN conjunct2, THEN conjunct2, THEN conjunct2, THEN conjunct1, THEN mp]
  note undo = processExpiredReservations_tick [OF pk', THEN conjunct2, THEN conjunct2,
      THEN conjunct2, THEN conjunct2, THEN conjunct2, THEN conjunct2, rule_format]
  have taken: "filter (due 70000) (reservations queue) =
     [\<lparr>res_id = 1, user_id = 7, drop_id = 1, status = Active, expires_at = 61000\<rparr>,
      \<lparr>res_id = 2, user_id = 8, drop_id = 2, status = Active, expires_at = 61000\<rparr>,
      \<lparr>res_id = 3, user_id = 9, drop_id = 1, status = Active, expires_at = 62000\<rparr>]"
    by (simp add: queue_def due_def DATETIME_def)
  have n1: "length (filter (\<lambda>r. due 70000 r \<and> drop_id r = 1) (reservations queue)) = 2"
    and n2: "length (filter (\<lambda>r. due 70000 r \<and> drop_id r = 2) (reservations queue)) = 1"
    by (simp_all add: queue_def due_def DATETIME_def)
  have room: "\<forall>k d. drops queue k = Some d \<and>
       0 < length (filter (\<lambda>r. due 70000 r \<and> drop_id r = k) (reservations queue)) \<longrightarrow>
       0 \<le> stock d + int (length (filter (\<lambda>r. due 70000 r \<and> drop_id r = k) (reservations queue))) \<and>
       stock d + int (length (filter (\<lambda>r. due 70000 r \<and> drop_id r = k) (reservations queue)))
         \<le> initial_stock d"
  proof (intro allI impI)
    fix k d
    assume a: "drops queue k = Some d \<and>
       0 < length (filter (\<lambda>r. due 70000 r \<and> drop_id r = k) (reservations queue))"
    then have "k = 1 \<or> k = 2" by (auto simp: queue_def split: if_splits)
    then show "0 \<le> stock d + int (length (filter (\<lambda>r. due 70000 r \<and> drop_id r = k) (reservations queue))) \<and>
       stock d + int (length (filter (\<lambda>r. due 70000 r \<and> drop_id r = k) (reservations queue)))
         \<le> initial_stock d"
    proof
      assume k: "k = 1"
      have "drops queue 1 = Some d" using a k by simp
      then have "stock d = 0" "initial_stock d = 3" by (auto simp: queue_def)
      then show ?thesis unfolding k n1 by simp
    next
      assume k: "k = 2"
      have "drops queue 2 = Some d" using a k by simp
      then have "stock d = 0" "initial_stock d = 2" by (auto simp: queue_def)
      then show ?thesis unfolding k n2 by simp
    qed
  qed
  have ok: "response (processExpiredReservations True 70000 queue) = Inr ()"
    by (rule commits [OF room])
  have rs: "reservations (db_after (processExpiredReservations True 70000 queue)) =
     [\<lparr>res_id = 1, user_id = 7, drop_id = 1, status = Expired, expires_at = 61000\<rparr>,
      \<lparr>res_id = 2, user_id = 8, drop_id = 2, status = Expired, expires_at = 61000\<rparr>,
      \<lparr>res_id = 3, user_id = 9, drop_id = 1, status = Expired, expires_at = 62000\<rparr>,
      \<lparr>res_id = 4, user_id = 7, drop_id = 2, status = Completed, expires_at = 62000\<rparr>,
      \<lparr>res_id = 5, user_id = 5, drop_id = 1, status = Active, expires_at = 90000\<rparr>]"
    unfolding tick [OF ok] by (simp add: queue_def due_def DATETIME_def)
  have d1: "drops (db_after (processExpiredReservations True 70000 queue)) 1 =
     Some \<lparr>name = ''Air Jordan 1'', price = 19999, stock = 2, initial_stock = 3,
           drop_start_time = None\<rparr>"
    unfolding tick [OF ok] by (simp add: queue_def due_def DATETIME_def)
  have d2: "drops (db_after (processExpiredReservations True 70000 queue)) 2 =
     Some \<lparr>name = ''Dunk Low'', price = 12000, stock = 1, initial_stock = 2,
           drop_start_time = None\<rparr>"
    unfolding tick [OF ok] by (simp add: queue_def due_def DATETIME_def)
  have entries: "snd (expire_loop (filter (due 70000) (reservations queue)) (reservations queue) [])
      = [(1, 2), (2, 1)]"
    unfolding taken by (simp add: expire_loop_fold)
  have "\<forall>r \<in> set (reservations shop). \<not> due 2000 r"
    by (simp add: shop_def due_def DATETIME_def)
  from idle [OF this] have quiet: "db_after (processExpiredReservations True 2000 shop) = shop"
    by simp
  have no: "response (processExpiredReservations True 70000 crowded) = Inl stock_exceeds_initial"
    by (simp add: processExpiredReservations_def crowded_def due_def DATETIME_def set_status_def
        drop_save_def validate_changed_def validate_stock_def beforeUpdate_def)
  show ?thesis using ok rs d1 d2 entries quiet no undo [OF no] by (intro conjI)
qed

text \<open>
  The claim has every active reservation with its expiry before now expired by the
  run. Reservation 1 of the first example database is active and expires at 61000; a
  run at 61500 compares it with 61000, takes nothing and leaves it active.
\<close>

theorem processExpiredReservations_within_the_second:
  "\<lparr>res_id = 1, user_id = 7, drop_id = 1, status = Active, expires_at = 61000\<rparr>
     \<in> set (reservations shop) \<and>
   expires_at \<lparr>res_id = 1, user_id = 7, drop_id = 1, status = Active, expires_at = 61000\<rparr>
     < 61500 \<and>
   filter (due 61500) (reservations shop) = [] \<and>
   response (processExpiredReservations True 61500 shop) = Inr () \<and>
   db_after (processExpiredReservations True 61500 shop) = shop \<and>
   \<lparr>res_id = 1, user_id = 7, drop_id = 1, status = Active, expires_at = 61000\<rparr>
     \<in> set (reservations (db_after (processExpiredReservations True 61500 shop)))"
proof -
  have none: "filter (due 61500) (reservations shop) = []"
    by (simp add: shop_def due_def DATETIME_def)
  have run: "processExpiredReservations True 61500 shop =
      \<lparr>response = Inr (), db_after = shop, actions = [Commit]\<rparr>"
    by (rule processExpiredReservations_paths(1) [OF none])
  have "\<lparr>res_id = 1, user_id = 7, drop_id = 1, status = Active, expires_at = 61000\<rparr>
     \<in> set (reservations shop)"
    by (simp add: shop_def)
  then show ?thesis unfolding run using none by simp
qed

section \<open>At most one active reservation per user and drop\<close>

text \<open>
  The example databases are what requests run one after the other leave. The second
  comes from the empty one by five requests.
\<close>

lemma crowded_serial: "serial 3000 crowded"
proof -
  let ?s1 = "perform True 0 (CreateDrop launch) empty_database"
  let ?s2 = "perform True 0 (CreateDrop launch) ?s1"
  let ?s3 = "perform True 1000 (ReserveItem None 7 1) ?s2"
  let ?s4 = "perform True 2000 (ReserveItem None 7 2) ?s3"
  let ?s5 = "perform True 3000 (UpdateDrop 2 restock) ?s4"
  have "serial 0 empty_database" by (rule serial.start)
  then have "serial 0 ?s1" by (rule serial.step) simp
  then have "serial 0 ?s2" by (rule serial.step) simp
  then have "serial 1000 ?s3" by (rule serial.step) simp
  then have "serial 2000 ?s4" by (rule serial.step) simp
  then have r: "serial 3000 ?s5" by (rule serial.step) simp
  have s2: "?s2 =
     \<lparr>drops =
        [1 \<mapsto> \<lparr>name = ''Air Jordan 1'', price = 19999, stock = 1, initial_stock = 1,
               drop_start_time = None\<rparr>,
         2 \<mapsto> \<lparr>name = ''Air Jordan 1'', price = 19999, stock = 1, initial_stock = 1,
               drop_start_time = None\<rparr>],
      next_drop_id = 3, reservations = [], next_reservation_id = 1,
      purchases = [], next_purchase_id = 1\<rparr>"
    by (simp add: createDrop_def launch_def empty_database_def validate_new_def validate_name_def
        notEmpty_def is_space_def validate_price_def validate_stock_def
        validate_initial_stock_def validate_drop_start_time_def stored_def
        Let_def eval_nat_numeral fun_eq_iff)
  have s3: "?s3 =
     \<lparr>drops =
        [1 \<mapsto> \<lparr>name = ''Air Jordan 1'', price = 19999, stock = 0, initial_stock = 1,
               drop_start_time = None\<rparr>,
         2 \<mapsto> \<lparr>name = ''Air Jordan 1'', price = 19999, stock = 1, initial_stock = 1,
               drop_start_time = None\<rparr>],
      next_drop_id = 3,
      reservations =
        [\<lparr>res_id = 1, user_id = 7, drop_id = 1, status = Active, expires_at = 61000\<rparr>],
      next_reservation_id = 2, purchases = [], next_purchase_id = 1\<rparr>"
    unfolding s2
    by (simp add: reserveItem_def reserveItem_locked_def hasStarted_def drop_save_def
        validate_changed_def validate_stock_def beforeUpdate_def expirationDuration_def
        valid_date_def DATETIME_def Let_def eval_nat_numeral fun_eq_iff)
  have s4: "?s4 =
     \<lparr>drops =
        [1 \<mapsto> \<lparr>name = ''Air Jordan 1'', price = 19999, stock = 0, initial_stock = 1,
               drop_start_time = None\<rparr>,
         2 \<mapsto> \<lparr>name = ''Air Jordan 1'', price = 19999, stock = 0, initial_stock = 1,
               drop_start_time = None\<rparr>],
      next_drop_id = 3,
      reservations =
        [\<lparr>res_id = 1, user_id = 7, drop_id = 1, status = Active, expires_at = 61000\<rparr>,
         \<lparr>res_id = 2, user_id = 7, drop_id = 2, status = Active, expires_at = 62000\<rparr>],
      next_reservation_id = 3, purchases = [], next_purchase_id = 1\<rparr>"
    unfolding s3
    by (simp add: reserveItem_def reserveItem_locked_def holds_active_def hasStarted_def
        drop_save_def validate_changed_def validate_stock_def beforeUpdate_def
        expirationDuration_def valid_date_def DATETIME_def Let_def eval_nat_numeral fun_eq_iff)
  have s5: "?s5 = crowded"
    unfolding s4
    by (simp add: updateDrop_def restock_def assign_fields_def drop_save_def
        validate_changed_def validate_stock_def beforeUpdate_def stored_def crowded_def
        eval_nat_numeral fun_eq_iff)
  show ?thesis using r unfolding s5 .
qed

text \<open>So does the first, by eight requests.\<close>

lemma shop_serial: "serial 1800 shop"
proof -
  let ?jordan = "\<lparr>c_name = ''Air Jordan 1'', c_price = 19999, c_stock = 2, c_initial_stock = 2,
      c_drop_start_time = None\<rparr>"
  let ?dunk = "\<lparr>c_name = ''Dunk Low'', c_price = 12000, c_stock = 1, c_initial_stock = 1,
      c_drop_start_time = None\<rparr>"
  let ?yeezy = "\<lparr>c_name = ''Yeezy 350'', c_price = 23000, c_stock = 1, c_initial_stock = 1,
      c_drop_start_time = Some 5000\<rparr>"
  let ?s1 = "perform True 0 (CreateDrop ?jordan) empty_database"
  let ?s2 = "perform True 0 (CreateDrop ?dunk) ?s1"
  let ?s3 = "perform True 0 (CreateDrop ?yeezy) ?s2"
  let ?s4 = "perform True 1000 (ReserveItem None 7 1) ?s3"
  let ?s5 = "perform True 1500 (ReserveItem None 8 2) ?s4"
  let ?s6 = "perform True 1600 (CancelReservation 8 2) ?s5"
  let ?s7 = "perform True 1700 (ReserveItem None 9 2) ?s6"
  let ?s8 = "perform True 1800 (CompletePurchase 9 3) ?s7"
  have "serial 0 empty_database" by (rule serial.start)
  then have "serial 0 ?s1" by (rule serial.step) simp
  then have "serial 0 ?s2" by (rule serial.step) simp
  then have "serial 0 ?s3" by (rule serial.step) simp
  then have "serial 1000 ?s4" by (rule serial.step) simp
  then have "serial 1500 ?s5" by (rule serial.step) simp
  then have "serial 1600 ?s6" by (rule serial.step) simp
  then have "serial 1700 ?s7" by (rule serial.step) simp
  then have r: "serial 1800 ?s8" by (rule serial.step) simp
  have "?s8 = shop"
    by (simp add: createDrop_def reserveItem_def reserveItem_locked_def cancelReservation_def
        completePurchase_def empty_database_def shop_def jordan_def dunk_def yeezy_def
        validate_new_def validate_name_def notEmpty_def is_space_def validate_price_def
        validate_stock_def validate_initial_stock_def validate_drop_start_time_def stored_def
        holds_active_def hasStarted_def drop_save_def validate_changed_def
        beforeUpdate_def expirationDuration_def valid_date_def DATETIME_def isExpired_def
        set_status_def Let_def eval_nat_numeral fun_eq_iff)
  then show ?thesis using r by simp
qed

text \<open>The database with five reservations comes from the empty one by eight requests, too.\<close>

lemma queue_serial: "serial 30000 queue"
proof -
  let ?jordan = "\<lparr>c_name = ''Air Jordan 1'', c_price = 19999, c_stock = 3, c_initial_stock = 3,
      c_drop_start_time = None\<rparr>"
  let ?dunk = "\<lparr>c_name = ''Dunk Low'', c_price = 12000, c_stock = 2, c_initial_stock = 2,
      c_drop_start_time = None\<rparr>"
  let ?s1 = "perform True 0 (CreateDrop ?jordan) empty_database"
  let ?s2 = "perform True 0 (CreateDrop ?dunk) ?s1"
  let ?s3 = "perform True 1000 (ReserveItem None 7 1) ?s2"
  let ?s4 = "perform True 1200 (ReserveItem None 8 2) ?s3"
  let ?s5 = "perform True 2000 (ReserveItem None 9 1) ?s4"
  let ?s6 = "perform True 2500 (ReserveItem None 7 2) ?s5"
  let ?s7 = "perform True 3000 (CompletePurchase 7 4) ?s6"
  let ?s8 = "perform True 30000 (ReserveItem None 5 1) ?s7"
  have "serial 0 empty_database" by (rule serial.start)
  then have "serial 0 ?s1" by (rule serial.step) simp
  then have "serial 0 ?s2" by (rule serial.step) simp
  then have "serial 1000 ?s3" by (rule serial.step) simp
  then have "serial 1200 ?s4" by (rule serial.step) simp
  then have "serial 2000 ?s5" by (rule serial.step) simp
  then have "serial 2500 ?s6" by (rule serial.step) simp
  then have "serial 3000 ?s7" by (rule serial.step) simp
  then have r: "serial 30000 ?s8" by (rule serial.step) simp
  have "?s8 = queue"
    by (simp add: createDrop_def reserveItem_def reserveItem_locked_def completePurchase_def
        empty_database_def queue_def validate_new_def validate_name_def notEmpty_def
        is_space_def validate_price_def validate_stock_def validate_initial_stock_def
        validate_drop_start_time_def stored_def holds_active_def hasStarted_def drop_save_def
        validate_changed_def beforeUpdate_def expirationDuration_def valid_date_def
        DATETIME_def isExpired_def set_status_def Let_def eval_nat_numeral fun_eq_iff)
  then show ?thesis using r by simp
qed

text \<open>A serial run is one of the runs of the server.\<close>

lemma serial_interleaved: "serial t s \<Longrightarrow> interleaved t s []"
proof (induction rule: serial.induct)
  case (start t)
  show ?case by (rule interleaved.start)
next
  case (step t s t' io opn)
  from step.IH step.hyps(2) show ?case by (rule interleaved.whole)
qed

lemma serial_reachable: "serial t s \<Longrightarrow> reachable t s"
  unfolding reachable_def by (blast dest: serial_interleaved)

text \<open>What an operation can do to the table of reservations.\<close>

lemma createDrop_reservations:
  "reservations (db_after (createDrop io req s)) = reservations s"
  by (simp add: createDrop_def Let_def)

lemma updateDrop_reservations:
  "reservations (db_after (updateDrop io i updates s)) = reservations s"
  by (simp add: updateDrop_def split: option.splits sum.splits)

lemma cancelReservation_reservations:
  "reservations (db_after (cancelReservation io userId i s)) = reservations s \<or>
   reservations (db_after (cancelReservation io userId i s)) = set_status i Expired (reservations s)"
  using cancelReservation_cases [of io userId i s]
proof (elim disjE exE conjE)
  fix e
  assume "cancelReservation io userId i s = rolled_back e s"
  then show ?thesis by (simp add: rolled_back_def)
next
  fix r
  assume found: "find (\<lambda>r. res_id r = i \<and> user_id r = userId \<and> status r = Active)
      (reservations s) = Some r" and none: "drops s (drop_id r) = None"
  have "res_id r = i" using find_SomeD [OF found] by simp
  then show ?thesis using cancelReservation_paths(2) [OF found none] by simp
next
  fix r d
  assume found: "find (\<lambda>r. res_id r = i \<and> user_id r = userId \<and> status r = Active)
      (reservations s) = Some r" and d: "drops s (drop_id r) = Some d"
    and saved: "drop_save d (d\<lparr>stock := stock d + 1\<rparr>) = Inr (d\<lparr>stock := stock d + 1\<rparr>)"
  have "res_id r = i" using find_SomeD [OF found] by simp
  then show ?thesis using cancelReservation_paths(4) [OF found d saved] by simp
qed

lemma completePurchase_reservations:
  "reservations (db_after (completePurchase io now userId i s)) = reservations s \<or>
   reservations (db_after (completePurchase io now userId i s)) =
     set_status i Completed (reservations s)"
  using completePurchase_cases [of io now userId i s]
proof (elim disjE exE conjE)
  fix e
  assume "completePurchase io now userId i s = rolled_back e s"
  then show ?thesis by (simp add: rolled_back_def)
next
  fix r d
  assume found: "find (\<lambda>r. res_id r = i \<and> user_id r = userId \<and> status r = Active)
      (reservations s) = Some r" and rest: "\<not> isExpired now r" "drops s (drop_id r) = Some d"
    "0 \<le> price d"
  have "res_id r = i" using find_SomeD [OF found] by simp
  then show ?thesis using completePurchase_paths(5) [OF found rest] by simp
qed

lemma processExpiredReservations_reservations:
  "reservations (db_after (processExpiredReservations io now s)) = reservations s \<or>
   reservations (db_after (processExpiredReservations io now s)) =
     map (\<lambda>x. if res_id x \<in> res_id ` set (filter (due now) (reservations s))
               then x\<lparr>status := Expired\<rparr> else x) (reservations s)"
proof (cases "filter (due now) (reservations s) = []")
  case True
  then show ?thesis using processExpiredReservations_paths(1) by simp
next
  case False
  let ?upd = "snd (expire_loop (filter (due now) (reservations s)) (reservations s) [])"
  obtain res ds' lg where rs: "return_stock io ?upd (drops s) = (res, ds', lg)"
    by (cases "return_stock io ?upd (drops s)")
  show ?thesis
  proof (cases res)
    case None
    with processExpiredReservations_paths(3) [OF False] rs show ?thesis
      by (simp add: expire_loop_fold fold_set_status)
  next
    case (Some e)
    with processExpiredReservations_paths(2) [OF False] rs show ?thesis by simp
  qed
qed

lemma reserveItem_locked_reservations:
  "reservations (db_after (reserveItem_locked env io now userId dropId s)) = reservations s \<or>
   reservations (db_after (reserveItem_locked env io now userId dropId s)) =
      reservations s @
        [\<lparr>res_id = next_reservation_id s, user_id = userId, drop_id = dropId,
          status = Active, expires_at = DATETIME (now + expirationDuration env)\<rparr>]"
  using reserveItem_locked_cases [of env io now userId dropId s]
proof (elim disjE exE conjE)
  fix e
  assume "reserveItem_locked env io now userId dropId s = rolled_back e s"
  then show ?thesis by (simp add: rolled_back_def)
next
  fix d
  assume a: "drops s dropId = Some d" "hasStarted now d" "0 < stock d"
    "drop_save d (d\<lparr>stock := stock d - 1\<rparr>) = Inr (d\<lparr>stock := stock d - 1\<rparr>)"
    "valid_date (now + expirationDuration env)"
    "now < now + expirationDuration env"
  from reserveItem_locked_unfold [OF a] show ?thesis by simp
qed

lemma reserveItem_reservations:
  "reservations (db_after (reserveItem env io now userId dropId s)) = reservations s \<or>
   (find (holds_active now userId dropId) (reservations s) = None \<and>
    reservations (db_after (reserveItem env io now userId dropId s)) =
      reservations s @
        [\<lparr>res_id = next_reservation_id s, user_id = userId, drop_id = dropId,
          status = Active, expires_at = DATETIME (now + expirationDuration env)\<rparr>])"
proof (cases "find (holds_active now userId dropId) (reservations s)")
  case (Some x)
  then show ?thesis by (simp add: reserveItem_rejections(1) rolled_back_def)
next
  case None
  then have "reserveItem env io now userId dropId s = reserveItem_locked env io now userId dropId s"
    by (simp add: reserveItem_def)
  then show ?thesis
    using None reserveItem_locked_reservations [of env io now userId dropId s] by auto
qed

text \<open>A change of status away from \<open>Active\<close> adds no active reservation.\<close>

lemma retire_count:
  "(\<And>x. x \<in> set xs \<Longrightarrow> P (f x) \<Longrightarrow> P x) \<Longrightarrow>
     length (filter P (map f xs)) \<le> length (filter P xs)"
proof (induction xs)
  case Nil
  then show ?case by simp
next
  case (Cons a xs)
  have "length (filter P (map f xs)) \<le> length (filter P xs)"
    using Cons by simp
  moreover have "P (f a) \<Longrightarrow> P a" using Cons.prems by simp
  ultimately show ?case by auto
qed

lemma set_status_count:
  "st \<noteq> Active \<Longrightarrow>
     length (filter (holds_active now u d) (set_status k st rs)) \<le>
     length (filter (holds_active now u d) rs)"
  unfolding set_status_def
  by (rule retire_count) (auto simp: holds_active_def split: if_splits)

lemma expire_ids_count:
  "length (filter (holds_active now u d)
      (map (\<lambda>x. if res_id x \<in> K then x\<lparr>status := Expired\<rparr> else x) rs)) \<le>
   length (filter (holds_active now u d) rs)"
  by (rule retire_count) (auto simp: holds_active_def split: if_splits)

lemma holds_active_earlier:
  "t \<le> now \<Longrightarrow> holds_active now u d r \<Longrightarrow> holds_active t u d r"
  using DATETIME_mono [of t now] by (simp add: holds_active_def)

lemma perform_single_active:
  assumes inv: "\<And>now u d. t \<le> now \<Longrightarrow> length (filter (holds_active now u d) (reservations s)) \<le> 1"
    and "t \<le> t'" and "t' \<le> now"
  shows "length (filter (holds_active now u d) (reservations (perform io t' opn s))) \<le> 1"
proof -
  have before: "length (filter (holds_active now u d) (reservations s)) \<le> 1"
    using inv assms(2,3) by simp
  show ?thesis
  proof (cases opn)
    case (CreateDrop req)
    then show ?thesis using before by (simp add: createDrop_reservations)
  next
    case (UpdateDrop i updates)
    then show ?thesis using before by (simp add: updateDrop_reservations)
  next
    case (CancelReservation userId i)
    have "length (filter (holds_active now u d) (set_status i Expired (reservations s))) \<le> 1"
      using set_status_count [of Expired now u d i "reservations s"] before by simp
    then show ?thesis
      using CancelReservation before cancelReservation_reservations [of io userId i s] by auto
  next
    case (CompletePurchase userId i)
    have "length (filter (holds_active now u d) (set_status i Completed (reservations s))) \<le> 1"
      using set_status_count [of Completed now u d i "reservations s"] before by simp
    then show ?thesis
      using CompletePurchase before completePurchase_reservations [of io t' userId i s] by auto
  next
    case ProcessExpiredReservations
    have "length (filter (holds_active now u d)
        (map (\<lambda>x. if res_id x \<in> res_id ` set (filter (due t') (reservations s))
               then x\<lparr>status := Expired\<rparr> else x) (reservations s))) \<le> 1"
      using expire_ids_count [of now u d _ "reservations s"] before by (rule order_trans)
    then show ?thesis
      using ProcessExpiredReservations before processExpiredReservations_reservations [of io t' s]
      by auto
  next
    case (ReserveItem env userId dropId)
    let ?r = "\<lparr>res_id = next_reservation_id s, user_id = userId, drop_id = dropId,
          status = Active, expires_at = DATETIME (t' + expirationDuration env)\<rparr>"
    have "length (filter (holds_active now u d) (reservations s @ [?r])) \<le> 1"
      if none: "find (holds_active t' userId dropId) (reservations s) = None"
    proof (cases "u = userId \<and> d = dropId")
      case True
      have "\<forall>x \<in> set (reservations s). \<not> holds_active t' userId dropId x"
        using none by (simp add: find_None_iff)
      then have "\<forall>x \<in> set (reservations s). \<not> holds_active now userId dropId x"
        using holds_active_earlier [OF assms(3)] by blast
      then have "filter (holds_active now userId dropId) (reservations s) = []"
        by (simp add: filter_empty_conv)
      then show ?thesis using True by simp
    next
      case False
      then have "\<not> holds_active now u d ?r" by (auto simp: holds_active_def)
      then show ?thesis using before by simp
    qed
    then show ?thesis
      using ReserveItem before reserveItem_reservations [of env io t' userId dropId s] by auto
  qed
qed

lemma serial_single_active:
  "serial t s \<Longrightarrow> t \<le> now \<Longrightarrow>
     length (filter (holds_active now u d) (reservations s)) \<le> 1"
proof (induction arbitrary: now u d rule: serial.induct)
  case (start t)
  then show ?case by (simp add: empty_database_def)
next
  case (step t s t' io opn)
  show ?case
    by (rule perform_single_active [OF step.IH step.hyps(2) step.prems])
qed

lemma active_after_retire:
  assumes "r \<in> set (map f rs)" and "status r = Active"
    and "\<And>x. f x = x \<or> status (f x) \<noteq> Active"
  shows "r \<in> set rs"
proof -
  obtain x where x: "x \<in> set rs" "r = f x" using assms(1) by auto
  then have "f x = x" using assms(2) assms(3) [of x] by auto
  then show ?thesis using x by simp
qed

lemma active_after_set_status:
  "r \<in> set (set_status k st rs) \<Longrightarrow> status r = Active \<Longrightarrow> st \<noteq> Active \<Longrightarrow> r \<in> set rs"
  unfolding set_status_def by (erule active_after_retire) auto

lemma filter_length_mono:
  "(\<And>x. P x \<Longrightarrow> Q x) \<Longrightarrow> length (filter P xs) \<le> length (filter Q xs)"
  by (induction xs) auto

text \<open>
  When the requests are run one after the other, at times that do not decrease, a user
  has at every time from then on at most one active reservation of a drop that the
  first query of \<^verbatim>\<open>reserveItem\<close> would find, so at most one that expires after that
  time. \<^verbatim>\<open>reserveItem\<close> refuses while there is one and leaves the database as it is, and
  after any operation other than \<^verbatim>\<open>reserveItem\<close> every active reservation in the table
  was in it, as it is, before.
\<close>

theorem serial_single_active_hold:
  assumes "serial t s" and "t \<le> now"
  shows "length (filter (holds_active now userId dropId) (reservations s)) \<le> 1 \<and>
     length (filter (\<lambda>r. user_id r = userId \<and> drop_id r = dropId \<and> status r = Active \<and>
        now < expires_at r) (reservations s)) \<le> 1 \<and>
     ((\<exists>r \<in> set (reservations s). holds_active now userId dropId r) \<longrightarrow>
        response (reserveItem env io now userId dropId s) = Inl already_reserved \<and>
        db_after (reserveItem env io now userId dropId s) = s) \<and>
     ((\<forall>env' u d. opn \<noteq> ReserveItem env' u d) \<longrightarrow>
        (\<forall>r \<in> set (reservations (perform io now opn s)).
           status r = Active \<longrightarrow> r \<in> set (reservations s)))"
proof -
  have one: "length (filter (holds_active now userId dropId) (reservations s)) \<le> 1"
    using assms by (rule serial_single_active)
  have "length (filter (\<lambda>r. user_id r = userId \<and> drop_id r = dropId \<and> status r = Active \<and>
        now < expires_at r) (reservations s)) \<le>
      length (filter (holds_active now userId dropId) (reservations s))"
  proof (rule filter_length_mono)
    fix r :: reservation
    assume "user_id r = userId \<and> drop_id r = dropId \<and> status r = Active \<and> now < expires_at r"
    then show "holds_active now userId dropId r"
      using DATETIME_le [of now] by (simp add: holds_active_def)
  qed
  then have two: "length (filter (\<lambda>r. user_id r = userId \<and> drop_id r = dropId \<and>
        status r = Active \<and> now < expires_at r) (reservations s)) \<le> 1"
    using one by simp
  have three: "response (reserveItem env io now userId dropId s) = Inl already_reserved \<and>
        db_after (reserveItem env io now userId dropId s) = s"
    if held: "\<exists>r \<in> set (reservations s). holds_active now userId dropId r"
  proof -
    obtain x where "find (holds_active now userId dropId) (reservations s) = Some x"
      using held by (cases "find (holds_active now userId dropId) (reservations s)")
        (auto simp: find_None_iff)
    from reserveItem_rejections(1) [OF this] show ?thesis
      by (simp add: rolled_back_def)
  qed
  have four: "r \<in> set (reservations s)"
    if other: "\<forall>env' u d. opn \<noteq> ReserveItem env' u d"
      and r: "r \<in> set (reservations (perform io now opn s))" and active: "status r = Active"
    for r
  proof (cases opn)
    case (CreateDrop req)
    then show ?thesis using r by (simp add: createDrop_reservations)
  next
    case (UpdateDrop i updates)
    then show ?thesis using r by (simp add: updateDrop_reservations)
  next
    case (ReserveItem env' u d)
    then show ?thesis using other by simp
  next
    case (CancelReservation u i)
    then show ?thesis
      using r active cancelReservation_reservations [of io u i s]
      by (auto dest: active_after_set_status)
  next
    case (CompletePurchase u i)
    then show ?thesis
      using r active completePurchase_reservations [of io now u i s]
      by (auto dest: active_after_set_status)
  next
    case ProcessExpiredReservations
    have "r \<in> set (reservations s)"
      if "r \<in> set (map (\<lambda>x. if res_id x \<in> res_id ` set (filter (due now) (reservations s))
               then x\<lparr>status := Expired\<rparr> else x) (reservations s))"
      using that active by (rule active_after_retire) auto
    then show ?thesis
      using ProcessExpiredReservations r processExpiredReservations_reservations [of io now s]
      by auto
  qed
  have three': "(\<exists>r \<in> set (reservations s). holds_active now userId dropId r) \<longrightarrow>
        response (reserveItem env io now userId dropId s) = Inl already_reserved \<and>
        db_after (reserveItem env io now userId dropId s) = s"
    using three by (rule impI)
  have four': "(\<forall>env' u d. opn \<noteq> ReserveItem env' u d) \<longrightarrow>
        (\<forall>r \<in> set (reservations (perform io now opn s)).
           status r = Active \<longrightarrow> r \<in> set (reservations s))"
    using four by blast
  show ?thesis using one two three' four' by (intro conjI)
qed

theorem serial_single_active_hold_witness:
  "length (filter (holds_active 5000 7 1) (reservations crowded)) \<le> 1 \<and>
   (\<exists>r \<in> set (reservations crowded). holds_active 5000 7 1 r) \<and>
   response (reserveItem None True 5000 7 1 crowded) = Inl already_reserved \<and>
   db_after (reserveItem None True 5000 7 1 crowded) = crowded \<and>
   \<lparr>res_id = 2, user_id = 7, drop_id = 2, status = Active, expires_at = 62000\<rparr>
     \<in> set (reservations (perform True 5000 (CancelReservation 7 1) crowded)) \<and>
   \<lparr>res_id = 2, user_id = 7, drop_id = 2, status = Active, expires_at = 62000\<rparr>
     \<in> set (reservations crowded)"
proof -
  have later: "(3000::int) \<le> 5000" by simp
  note inv = serial_single_active_hold [OF crowded_serial later]
  have held: "\<exists>r \<in> set (reservations crowded). holds_active 5000 7 1 r"
    by (simp add: crowded_def holds_active_def DATETIME_def)
  have other: "\<forall>env' u d. CancelReservation 7 1 \<noteq> ReserveItem env' u d" by simp
  have kept: "\<lparr>res_id = 2, user_id = 7, drop_id = 2, status = Active, expires_at = 62000\<rparr>
     \<in> set (reservations (perform True 5000 (CancelReservation 7 1) crowded))"
    by (simp add: cancelReservation_def crowded_def set_status_def drop_save_def
        validate_changed_def validate_stock_def beforeUpdate_def Let_def)
  have active: "status \<lparr>res_id = 2, user_id = 7, drop_id = 2, status = Active,
      expires_at = 62000\<rparr> = Active"
    by simp
  from inv [THEN conjunct2, THEN conjunct2, THEN conjunct2, THEN mp, OF other, THEN bspec,
      OF kept, THEN mp, OF active]
  have before: "\<lparr>res_id = 2, user_id = 7, drop_id = 2, status = Active, expires_at = 62000\<rparr>
     \<in> set (reservations crowded)" .
  from inv [THEN conjunct2, THEN conjunct2, THEN conjunct1, THEN mp, OF held]
  have refused: "response (reserveItem None True 5000 7 1 crowded) = Inl already_reserved \<and>
      db_after (reserveItem None True 5000 7 1 crowded) = crowded" .
  from inv [THEN conjunct1]
  have "length (filter (holds_active 5000 7 1) (reservations crowded)) \<le> 1" .
  then show ?thesis using held refused kept before by (intro conjI) simp_all
qed

text \<open>
  Claim C2. A user has at most one active reservation of a drop that expires later, in
  every state the server can reach. The handler asks for such a reservation in its
  first query, which takes no lock, and does not ask again once it holds the row lock
  on the drop; the index on user and drop is not unique. Two requests of user 7 for drop
  1, a drop of two pairs, sent together at 1000: the first query of each finds nothing;
  the first request then locks the drop, takes a pair, inserts reservation 1 and
  commits; the second gets the lock, still finds stock, takes the other pair and
  inserts reservation 2. User 7 now holds two active reservations of drop 1 until
  61000. Sent one after the other, the second request is refused.
\<close>

theorem reserveItem_twice_concurrently:
  "find (holds_active 1000 7 1) (reservations released) = None \<and>
   response (reserveItem_locked None True 1000 7 1 released) =
     Inr \<lparr>rr_id = 1, rr_drop_id = 1, rr_status = Active, rr_expires_at = 61000,
          rr_remaining_seconds = 60, rr_drop_name = ''Air Force 1'', rr_drop_stock = 1\<rparr> \<and>
   response (reserveItem_locked None True 1000 7 1
       (db_after (reserveItem_locked None True 1000 7 1 released))) =
     Inr \<lparr>rr_id = 2, rr_drop_id = 1, rr_status = Active, rr_expires_at = 61000,
          rr_remaining_seconds = 60, rr_drop_name = ''Air Force 1'', rr_drop_stock = 0\<rparr> \<and>
   db_after (reserveItem_locked None True 1000 7 1
       (db_after (reserveItem_locked None True 1000 7 1 released))) = double_booked \<and>
   filter (\<lambda>r. user_id r = 7 \<and> drop_id r = 1 \<and> status r = Active \<and> 1000 < expires_at r)
       (reservations double_booked) =
     [\<lparr>res_id = 1, user_id = 7, drop_id = 1, status = Active, expires_at = 61000\<rparr>,
      \<lparr>res_id = 2, user_id = 7, drop_id = 1, status = Active, expires_at = 61000\<rparr>] \<and>
   reachable 1000 double_booked \<and>
   response (reserveItem None True 1000 7 1
       (db_after (reserveItem_locked None True 1000 7 1 released))) = Inl already_reserved"
proof -
  let ?once = "released
     \<lparr>drops := [1 \<mapsto> \<lparr>name = ''Air Force 1'', price = 11000, stock = 1, initial_stock = 2,
              drop_start_time = None\<rparr>],
      reservations :=
        [\<lparr>res_id = 1, user_id = 7, drop_id = 1, status = Active, expires_at = 61000\<rparr>],
      next_reservation_id := 2\<rparr>"
  have q: "find (holds_active 1000 7 1) (reservations released) = None"
    by (simp add: released_def)
  have first: "reserveItem_locked None True 1000 7 1 released =
     \<lparr>response = Inr \<lparr>rr_id = 1, rr_drop_id = 1, rr_status = Active, rr_expires_at = 61000,
          rr_remaining_seconds = 60, rr_drop_name = ''Air Force 1'', rr_drop_stock = 1\<rparr>,
      db_after = ?once,
      actions = [Commit, Emit (StockUpdate 1 1), Emit (ReservationCreated 1 1 7)]\<rparr>"
    by (simp add: reserveItem_locked_def released_def hasStarted_def drop_save_def
        validate_changed_def validate_stock_def beforeUpdate_def expirationDuration_def
        valid_date_def getRemainingTime_def DATETIME_def emits_def Let_def)
  have second: "reserveItem_locked None True 1000 7 1 ?once =
     \<lparr>response = Inr \<lparr>rr_id = 2, rr_drop_id = 1, rr_status = Active, rr_expires_at = 61000,
          rr_remaining_seconds = 60, rr_drop_name = ''Air Force 1'', rr_drop_stock = 0\<rparr>,
      db_after = double_booked,
      actions = [Commit, Emit (StockUpdate 1 0), Emit (ReservationCreated 2 1 7)]\<rparr>"
    by (simp add: reserveItem_locked_def released_def double_booked_def hasStarted_def
        drop_save_def validate_changed_def validate_stock_def beforeUpdate_def
        expirationDuration_def valid_date_def getRemainingTime_def DATETIME_def emits_def
        Let_def)
  have serially: "response (reserveItem None True 1000 7 1 ?once) = Inl already_reserved"
    by (simp add: reserveItem_def released_def holds_active_def DATETIME_def rolled_back_def)
  have both: "filter (\<lambda>r. user_id r = 7 \<and> drop_id r = 1 \<and> status r = Active \<and>
        1000 < expires_at r) (reservations double_booked) =
     [\<lparr>res_id = 1, user_id = 7, drop_id = 1, status = Active, expires_at = 61000\<rparr>,
      \<lparr>res_id = 2, user_id = 7, drop_id = 1, status = Active, expires_at = 61000\<rparr>]"
    by (simp add: double_booked_def)
  have created: "perform True 0 (CreateDrop release) empty_database = released"
    by (simp add: createDrop_def release_def released_def empty_database_def validate_new_def
        validate_name_def notEmpty_def is_space_def validate_price_def validate_stock_def
        validate_initial_stock_def validate_drop_start_time_def stored_def Let_def
        eval_nat_numeral fun_eq_iff)
  have "interleaved 0 empty_database []" by (rule interleaved.start)
  then have "interleaved 0 (perform True 0 (CreateDrop release) empty_database) []"
    by (rule interleaved.whole) simp
  then have "interleaved 0 released []" unfolding created .
  then have "interleaved 1000 released [(7, 1)]"
    by (rule interleaved.query [OF _ _ q]) simp
  then have "interleaved 1000 released [(7, 1), (7, 1)]"
    by (rule interleaved.query [OF _ _ q]) simp
  then have "interleaved 1000 (db_after (reserveItem_locked None True 1000 7 1 released))
      (remove1 (7, 1) [(7, 1), (7, 1)])"
    by (rule interleaved.locked) simp_all
  then have "interleaved 1000 ?once [(7, 1)]" unfolding first by simp
  then have "interleaved 1000 (db_after (reserveItem_locked None True 1000 7 1 ?once))
      (remove1 (7, 1) [(7, 1)])"
    by (rule interleaved.locked) simp_all
  then have "interleaved 1000 double_booked []" unfolding second by simp
  then have reach: "reachable 1000 double_booked" unfolding reachable_def by blast
  show ?thesis unfolding first using q second serially both reach by simp
qed

subsection \<open>The primary key of a reservation\<close>

text \<open>
  Ids are handed out in increasing order and never changed, so in every reachable
  database, however the requests were interleaved, the ids of the reservations are
  distinct.
\<close>

lemma set_status_ids: "map res_id (set_status k st rs) = map res_id rs"
  by (simp add: set_status_def comp_def if_distrib [of res_id] cong: if_cong)

lemma expire_ids_keep:
  "map res_id (map (\<lambda>x. if res_id x \<in> K then x\<lparr>status := Expired\<rparr> else x) rs) = map res_id rs"
  by (induction rs) simp_all

lemma reserveItem_locked_next_reservation_id:
  "next_reservation_id s \<le> next_reservation_id (db_after (reserveItem_locked env io now userId dropId s))"
  using reserveItem_locked_cases [of env io now userId dropId s]
proof (elim disjE exE conjE)
  fix e
  assume "reserveItem_locked env io now userId dropId s = rolled_back e s"
  then show ?thesis by (simp add: rolled_back_def)
next
  fix d
  assume a: "drops s dropId = Some d" "hasStarted now d" "0 < stock d"
    "drop_save d (d\<lparr>stock := stock d - 1\<rparr>) = Inr (d\<lparr>stock := stock d - 1\<rparr>)"
    "valid_date (now + expirationDuration env)"
    "now < now + expirationDuration env"
  show ?thesis using reserveItem_locked_unfold [OF a] by simp
qed

lemma reserveItem_locked_ids:
  "map res_id (reservations (db_after (reserveItem_locked env io now userId dropId s))) =
     map res_id (reservations s) \<or>
   (map res_id (reservations (db_after (reserveItem_locked env io now userId dropId s))) =
      map res_id (reservations s) @ [next_reservation_id s] \<and>
    next_reservation_id (db_after (reserveItem_locked env io now userId dropId s)) =
      Suc (next_reservation_id s))"
  using reserveItem_locked_cases [of env io now userId dropId s]
proof (elim disjE exE conjE)
  fix e
  assume "reserveItem_locked env io now userId dropId s = rolled_back e s"
  then show ?thesis by (simp add: rolled_back_def)
next
  fix d
  assume a: "drops s dropId = Some d" "hasStarted now d" "0 < stock d"
    "drop_save d (d\<lparr>stock := stock d - 1\<rparr>) = Inr (d\<lparr>stock := stock d - 1\<rparr>)"
    "valid_date (now + expirationDuration env)"
    "now < now + expirationDuration env"
  show ?thesis using reserveItem_locked_unfold [OF a] by simp
qed

lemma reserveItem_runs_locked:
  "reserveItem env io now userId dropId s = rolled_back already_reserved s \<or>
   reserveItem env io now userId dropId s = reserveItem_locked env io now userId dropId s"
  by (simp add: reserveItem_def split: option.splits)

lemma perform_next_reservation_id:
  "next_reservation_id s \<le> next_reservation_id (perform io now opn s)"
proof (cases opn)
  case (CreateDrop req)
  then show ?thesis by (simp add: createDrop_def Let_def)
next
  case (UpdateDrop i updates)
  then show ?thesis by (simp add: updateDrop_def split: option.splits sum.splits)
next
  case (ReserveItem env userId dropId)
  then show ?thesis
    using reserveItem_runs_locked [of env io now userId dropId s]
      reserveItem_locked_next_reservation_id [of s env io now userId dropId]
    by (auto simp: rolled_back_def)
next
  case (CancelReservation userId i)
  show ?thesis
    using cancelReservation_cases [of io userId i s]
  proof (elim disjE exE conjE)
    fix e
    assume "cancelReservation io userId i s = rolled_back e s"
    then show ?thesis using CancelReservation by (simp add: rolled_back_def)
  next
    fix r
    assume found: "find (\<lambda>r. res_id r = i \<and> user_id r = userId \<and> status r = Active)
        (reservations s) = Some r" and none: "drops s (drop_id r) = None"
    show ?thesis using CancelReservation cancelReservation_paths(2) [OF found none] by simp
  next
    fix r d
    assume found: "find (\<lambda>r. res_id r = i \<and> user_id r = userId \<and> status r = Active)
        (reservations s) = Some r" and d: "drops s (drop_id r) = Some d"
      and saved: "drop_save d (d\<lparr>stock := stock d + 1\<rparr>) = Inr (d\<lparr>stock := stock d + 1\<rparr>)"
    show ?thesis using CancelReservation cancelReservation_paths(4) [OF found d saved] by simp
  qed
next
  case (CompletePurchase userId i)
  show ?thesis
    using completePurchase_cases [of io now userId i s]
  proof (elim disjE exE conjE)
    fix e
    assume "completePurchase io now userId i s = rolled_back e s"
    then show ?thesis using CompletePurchase by (simp add: rolled_back_def)
  next
    fix r d
    assume found: "find (\<lambda>r. res_id r = i \<and> user_id r = userId \<and> status r = Active)
        (reservations s) = Some r" and rest: "\<not> isExpired now r" "drops s (drop_id r) = Some d"
      "0 \<le> price d"
    show ?thesis using CompletePurchase completePurchase_paths(5) [OF found rest] by simp
  qed
next
  case ProcessExpiredReservations
  show ?thesis
  proof (cases "filter (due now) (reservations s) = []")
    case True
    then show ?thesis
      using ProcessExpiredReservations processExpiredReservations_paths(1) by simp
  next
    case False
    let ?upd = "snd (expire_loop (filter (due now) (reservations s)) (reservations s) [])"
    obtain res ds' lg where rs: "return_stock io ?upd (drops s) = (res, ds', lg)"
      by (cases "return_stock io ?upd (drops s)")
    show ?thesis
    proof (cases res)
      case None
      with processExpiredReservations_paths(3) [OF False] rs show ?thesis
        using ProcessExpiredReservations by simp
    next
      case (Some e)
      with processExpiredReservations_paths(2) [OF False] rs show ?thesis
        using ProcessExpiredReservations by simp
    qed
  qed
qed

lemma perform_ids:
  "map res_id (reservations (perform io now opn s)) = map res_id (reservations s) \<or>
   (map res_id (reservations (perform io now opn s)) =
      map res_id (reservations s) @ [next_reservation_id s] \<and>
    next_reservation_id (perform io now opn s) = Suc (next_reservation_id s))"
proof (cases opn)
  case (CreateDrop req)
  then show ?thesis by (simp add: createDrop_reservations)
next
  case (UpdateDrop i updates)
  then show ?thesis by (simp add: updateDrop_reservations)
next
  case (ReserveItem env userId dropId)
  then show ?thesis
    using reserveItem_runs_locked [of env io now userId dropId s]
      reserveItem_locked_ids [of env io now userId dropId s]
    by (auto simp: rolled_back_def)
next
  case (CancelReservation userId i)
  then show ?thesis
    using cancelReservation_reservations [of io userId i s] by (auto simp: set_status_ids)
next
  case (CompletePurchase userId i)
  then show ?thesis
    using completePurchase_reservations [of io now userId i s] by (auto simp: set_status_ids)
next
  case ProcessExpiredReservations
  have "map res_id (reservations (db_after (processExpiredReservations io now s))) =
      map res_id (reservations s)"
    using processExpiredReservations_reservations [of io now s]
  proof (elim disjE)
    assume "reservations (db_after (processExpiredReservations io now s)) = reservations s"
    then show ?thesis by simp
  next
    assume "reservations (db_after (processExpiredReservations io now s)) =
      map (\<lambda>x. if res_id x \<in> res_id ` set (filter (due now) (reservations s))
               then x\<lparr>status := Expired\<rparr> else x) (reservations s)"
    then show ?thesis by (simp only: expire_ids_keep)
  qed
  then show ?thesis using ProcessExpiredReservations by simp
qed

lemma interleaved_primary_key:
  "interleaved t s waiting \<Longrightarrow>
     distinct (map res_id (reservations s)) \<and>
     (\<forall>i \<in> set (map res_id (reservations s)). i < next_reservation_id s)"
proof (induction rule: interleaved.induct)
  case (start t)
  then show ?case by (simp add: empty_database_def)
next
  case (whole t s waiting t' io opn)
  show ?case
    using perform_ids [of io t' opn s] perform_next_reservation_id [of s io t' opn] whole.IH
    by (elim disjE conjE) (simp, fastforce, simp, fastforce)
next
  case (query t s waiting t' userId dropId)
  then show ?case by simp
next
  case (locked t s waiting t' userId dropId env io)
  show ?case
    using reserveItem_locked_ids [of env io t' userId dropId s]
      reserveItem_locked_next_reservation_id [of s env io t' userId dropId] locked.IH
    by (elim disjE conjE) (simp, fastforce, simp, fastforce)
qed

lemma reachable_primary_key:
  "reachable t s \<Longrightarrow>
     distinct (map res_id (reservations s)) \<and>
     (\<forall>i \<in> set (map res_id (reservations s)). i < next_reservation_id s)"
  unfolding reachable_def by (blast dest: interleaved_primary_key)

section \<open>The ceiling on the stock\<close>

lemma within_ceiling_iff:
  "within_ceiling s \<longleftrightarrow> (\<forall>k d. drops s k = Some d \<longrightarrow> 0 \<le> stock d \<and> stock d \<le> initial_stock d)"
  by (auto simp: within_ceiling_def ran_def)

lemma return_stock_ceiling:
  assumes "return_stock io upd ds = (None, ds', lg)"
    and "\<forall>k d. ds k = Some d \<longrightarrow> 0 \<le> stock d \<and> stock d \<le> initial_stock d"
  shows "\<forall>k d. ds' k = Some d \<longrightarrow> 0 \<le> stock d \<and> stock d \<le> initial_stock d"
  using assms
proof (induction upd arbitrary: ds ds' lg)
  case Nil
  then show ?case by simp
next
  case (Cons entry rest)
  obtain j n where entry: "entry = (j, n)" by (cases entry)
  show ?case
  proof (cases "ds j")
    case None
    then have "return_stock io rest ds = (None, ds', lg)"
      using Cons.prems(1) entry by simp
    from Cons.IH [OF this Cons.prems(2)] show ?thesis .
  next
    case (Some d)
    let ?d = "d\<lparr>stock := stock d + int n\<rparr>"
    have saved: "drop_save d ?d = Inr ?d"
      using drop_save_result [of d ?d] Cons.prems(1) entry Some by auto
    obtain lg' where rec: "return_stock io rest (ds(j \<mapsto> ?d)) = (None, ds', lg')"
      using Cons.prems(1) entry Some saved by (auto split: prod.splits)
    have "0 \<le> stock d" using Cons.prems(2) Some by simp
    then have "0 \<le> stock ?d \<and> stock ?d \<le> initial_stock ?d"
      using drop_save_Inr [OF saved] by simp
    then have "\<forall>k d'. (ds(j \<mapsto> ?d)) k = Some d' \<longrightarrow> 0 \<le> stock d' \<and> stock d' \<le> initial_stock d'"
      using Cons.prems(2) by auto
    from Cons.IH [OF rec this] show ?thesis .
  qed
qed

lemma reserveItem_locked_ceiling:
  assumes "within_ceiling s"
  shows "within_ceiling (db_after (reserveItem_locked env io now userId dropId s))"
  using reserveItem_locked_cases [of env io now userId dropId s]
proof (elim disjE exE conjE)
  fix e
  assume "reserveItem_locked env io now userId dropId s = rolled_back e s"
  then show ?thesis using assms by (simp add: rolled_back_def)
next
  fix d
  assume a: "drops s dropId = Some d" "hasStarted now d" "0 < stock d"
    "drop_save d (d\<lparr>stock := stock d - 1\<rparr>) = Inr (d\<lparr>stock := stock d - 1\<rparr>)"
    "valid_date (now + expirationDuration env)"
    "now < now + expirationDuration env"
  note ok = assms [unfolded within_ceiling_iff, rule_format]
  have "0 \<le> stock d - 1 \<and> stock d - 1 \<le> initial_stock d"
    using a(3) drop_save_Inr [OF a(4)] by simp
  then show ?thesis
    using reserveItem_locked_unfold [OF a] ok by (auto simp: within_ceiling_iff)
qed

text \<open>
  Every operation but \<^verbatim>\<open>createDrop\<close> keeps the stock of every drop between 0 and its
  initial stock: \<^verbatim>\<open>reserveItem\<close> checks the stock before it takes one, and each save of
  a drop (in \<^verbatim>\<open>updateDrop\<close>, \<^verbatim>\<open>cancelReservation\<close> and the expiration job) goes through the
  \<^verbatim>\<open>min 0\<close> validator and the \<^verbatim>\<open>beforeUpdate\<close> hook, which throw instead of writing.
\<close>

theorem ceiling_preserved:
  assumes "within_ceiling s" and "\<forall>req. opn \<noteq> CreateDrop req"
  shows "within_ceiling (perform io now opn s)"
proof -
  note ok = assms(1) [unfolded within_ceiling_iff, rule_format]
  show ?thesis
  proof (cases opn)
    case (CreateDrop req)
    then show ?thesis using assms(2) by simp
  next
    case (UpdateDrop i updates)
    show ?thesis
    proof (cases "drops s i")
      case None
      then show ?thesis using UpdateDrop assms(1) by (simp add: updateDrop_def)
    next
      case (Some d)
      let ?d = "assign_fields updates d"
      show ?thesis
      proof (cases "drop_save d ?d = Inr ?d")
        case False
        then obtain e where "drop_save d ?d = Inl e" using drop_save_result by blast
        then show ?thesis using UpdateDrop Some assms(1) by (simp add: updateDrop_def)
      next
        case True
        have init: "initial_stock ?d = initial_stock d" by (simp add: assign_fields_def)
        have "stock ?d = stock d \<or> 0 \<le> stock ?d"
          using drop_save_Inr [OF True]
          by (auto simp: validate_changed_def validate_stock_def split: if_splits)
        then have "0 \<le> stock ?d \<and> stock ?d \<le> initial_stock ?d"
          using drop_save_Inr [OF True] ok [OF Some] by auto
        then have "0 \<le> stock (stored ?d) \<and> stock (stored ?d) \<le> initial_stock (stored ?d)"
          by (simp add: stored_def)
        then show ?thesis
          using UpdateDrop Some True ok by (auto simp: updateDrop_def within_ceiling_iff)
      qed
    qed
  next
    case (ReserveItem env userId dropId)
    then show ?thesis
      using reserveItem_runs_locked [of env io now userId dropId s] assms(1)
        reserveItem_locked_ceiling [OF assms(1), of env io now userId dropId]
      by (auto simp: rolled_back_def)
  next
    case (CancelReservation userId i)
    show ?thesis
      using cancelReservation_cases [of io userId i s]
    proof (elim disjE exE conjE)
      fix e
      assume "cancelReservation io userId i s = rolled_back e s"
      then show ?thesis using CancelReservation assms(1) by (simp add: rolled_back_def)
    next
      fix r
      assume found: "find (\<lambda>r. res_id r = i \<and> user_id r = userId \<and> status r = Active)
          (reservations s) = Some r" and none: "drops s (drop_id r) = None"
      show ?thesis
        using CancelReservation cancelReservation_paths(2) [OF found none] ok
        by (auto simp: within_ceiling_iff)
    next
      fix r d
      assume found: "find (\<lambda>r. res_id r = i \<and> user_id r = userId \<and> status r = Active)
          (reservations s) = Some r" and d: "drops s (drop_id r) = Some d"
        and saved: "drop_save d (d\<lparr>stock := stock d + 1\<rparr>) = Inr (d\<lparr>stock := stock d + 1\<rparr>)"
      have "0 \<le> stock d + 1 \<and> stock d + 1 \<le> initial_stock d"
        using ok [OF d] drop_save_Inr [OF saved] by simp
      then show ?thesis
        using CancelReservation cancelReservation_paths(4) [OF found d saved] ok
        by (auto simp: within_ceiling_iff)
    qed
  next
    case (CompletePurchase userId i)
    show ?thesis
      using completePurchase_cases [of io now userId i s]
    proof (elim disjE exE conjE)
      fix e
      assume "completePurchase io now userId i s = rolled_back e s"
      then show ?thesis using CompletePurchase assms(1) by (simp add: rolled_back_def)
    next
      fix r d
      assume found: "find (\<lambda>r. res_id r = i \<and> user_id r = userId \<and> status r = Active)
          (reservations s) = Some r" and rest: "\<not> isExpired now r" "drops s (drop_id r) = Some d"
        "0 \<le> price d"
      show ?thesis
        using CompletePurchase completePurchase_paths(5) [OF found rest] ok
        by (auto simp: within_ceiling_iff)
    qed
  next
    case ProcessExpiredReservations
    show ?thesis
    proof (cases "filter (due now) (reservations s) = []")
      case True
      then show ?thesis
        using ProcessExpiredReservations processExpiredReservations_paths(1) assms(1) by simp
    next
      case False
      let ?upd = "snd (expire_loop (filter (due now) (reservations s)) (reservations s) [])"
      obtain res ds' lg where rs: "return_stock io ?upd (drops s) = (res, ds', lg)"
        by (cases "return_stock io ?upd (drops s)")
      show ?thesis
      proof (cases res)
        case (Some e)
        with processExpiredReservations_paths(2) [OF False] rs show ?thesis
          using ProcessExpiredReservations assms(1) by simp
      next
        case None
        have "\<forall>k d. ds' k = Some d \<longrightarrow> 0 \<le> stock d \<and> stock d \<le> initial_stock d"
          using return_stock_ceiling [OF rs [unfolded None]] ok by blast
        then show ?thesis
          using ProcessExpiredReservations processExpiredReservations_paths(3) [OF False]
            rs None
          by (simp add: within_ceiling_iff)
      qed
    qed
  qed
qed

theorem ceiling_preserved_witness:
  "within_ceiling shop \<and> within_ceiling (perform True 5000 (CancelReservation 7 1) shop)"
proof -
  have ok: "within_ceiling shop"
    by (simp add: within_ceiling_iff shop_def jordan_def dunk_def yeezy_def)
  have other: "\<forall>req. CancelReservation 7 1 \<noteq> CreateDrop req" by simp
  from ceiling_preserved [OF ok other] ok show ?thesis by (intro conjI)
qed

text \<open>
  The validators of the name at work: a name of three blanks is long enough and is
  refused as empty; a name of two letters is refused for its length; a negative price
  is refused.
\<close>

lemma createDrop_refuses:
  "createDrop True
     \<lparr>c_name = ''   '', c_price = 15000, c_stock = 3, c_initial_stock = 3,
      c_drop_start_time = None\<rparr> empty_database =
     \<lparr>response = Inl (Invalid [''Drop name cannot be empty'']), db_after = empty_database,
      actions = []\<rparr>"
  "createDrop True
     \<lparr>c_name = ''AF'', c_price = 15000, c_stock = 3, c_initial_stock = 3,
      c_drop_start_time = None\<rparr> empty_database =
     \<lparr>response = Inl (Invalid [''Drop name must be between 3 and 255 characters'']),
      db_after = empty_database, actions = []\<rparr>"
  "createDrop True
     \<lparr>c_name = ''Air Max 90'', c_price = - 1, c_stock = 3, c_initial_stock = 3,
      c_drop_start_time = None\<rparr> empty_database =
     \<lparr>response = Inl (Invalid [''Price must be greater than or equal to 0'']),
      db_after = empty_database, actions = []\<rparr>"
  by (simp_all add: createDrop_def validate_new_def validate_name_def notEmpty_def is_space_def
      validate_price_def validate_stock_def validate_initial_stock_def
      validate_drop_start_time_def Let_def)

text \<open>
  Claim C1. For every drop, \<open>0 \<le> stock \<le> initial_stock\<close> after any sequence of
  operations. \<^verbatim>\<open>Drop.create\<close> validates \<^verbatim>\<open>stock\<close> and \<^verbatim>\<open>initial_stock\<close> each against 0
  and runs no hook, so \<^verbatim>\<open>createDrop\<close> on the empty database with stock 5 and initial
  stock 3 answers with success and stores the drop as sent: one operation leads to a
  database with a drop above its ceiling.
\<close>

theorem createDrop_above_ceiling:
  "response (createDrop True oversold empty_database) =
     Inr (1, \<lparr>name = ''Air Max 90'', price = 15000, stock = 5, initial_stock = 3,
              drop_start_time = None\<rparr>) \<and>
   drops (db_after (createDrop True oversold empty_database)) 1 =
     Some \<lparr>name = ''Air Max 90'', price = 15000, stock = 5, initial_stock = 3,
           drop_start_time = None\<rparr> \<and>
   reachable 0 (db_after (createDrop True oversold empty_database))"
proof -
  have ev: "createDrop True oversold empty_database =
     \<lparr>response = Inr (1, \<lparr>name = ''Air Max 90'', price = 15000, stock = 5, initial_stock = 3,
              drop_start_time = None\<rparr>),
      db_after = empty_database
        \<lparr>drops := [1 \<mapsto> \<lparr>name = ''Air Max 90'', price = 15000, stock = 5, initial_stock = 3,
              drop_start_time = None\<rparr>],
         next_drop_id := 2\<rparr>,
      actions = [Commit, Emit (NewDrop 1)]\<rparr>"
    by (simp add: createDrop_def oversold_def empty_database_def validate_new_def
        validate_name_def notEmpty_def is_space_def validate_price_def validate_stock_def
        validate_initial_stock_def validate_drop_start_time_def stored_def emits_def Let_def
        eval_nat_numeral)
  have "serial 0 empty_database" by (rule serial.start)
  then have "serial 0 (perform True 0 (CreateDrop oversold) empty_database)"
    by (rule serial.step) simp
  then have "reachable 0 (perform True 0 (CreateDrop oversold) empty_database)"
    by (rule serial_reachable)
  then have re: "reachable 0 (db_after (createDrop True oversold empty_database))" by simp
  show ?thesis using re unfolding ev by simp
qed

text \<open>The database it leaves is not within the ceiling.\<close>

lemma createDrop_breaks_ceiling:
  "\<not> within_ceiling (db_after (createDrop True oversold empty_database))"
proof -
  have "drops (db_after (createDrop True oversold empty_database)) 1 =
     Some \<lparr>name = ''Air Max 90'', price = 15000, stock = 5, initial_stock = 3,
           drop_start_time = None\<rparr>"
    by (simp add: createDrop_def oversold_def empty_database_def validate_new_def
        validate_name_def notEmpty_def is_space_def validate_price_def validate_stock_def
        validate_initial_stock_def validate_drop_start_time_def stored_def Let_def)
  then show ?thesis unfolding within_ceiling_iff by force
qed

text \<open>\<^verbatim>\<open>updateDrop\<close> throws on the same stock for a drop whose initial stock is 1.\<close>

lemma updateDrop_refuses_overfill:
  "response (updateDrop True 3 overfill shop) = Inl stock_exceeds_initial \<and>
   db_after (updateDrop True 3 overfill shop) = shop"
  by (simp add: updateDrop_def overfill_def shop_def yeezy_def assign_fields_def drop_save_def
      validate_changed_def validate_stock_def beforeUpdate_def)

section \<open>Events and the transaction\<close>

lemma emits_after_commit_map: "emits_after_commit True (map Emit es)"
  by (induction es) simp_all

lemma emits_after_commit_emits: "emits_after_commit True (emits io es)"
  by (simp add: emits_def emits_after_commit_map)

lemma reserveItem_locked_emits_after_commit:
  "emits_after_commit False (actions (reserveItem_locked env io now userId dropId s))"
  using reserveItem_locked_cases [of env io now userId dropId s]
proof (elim disjE exE conjE)
  fix e
  assume "reserveItem_locked env io now userId dropId s = rolled_back e s"
  then show ?thesis by (simp add: rolled_back_def)
next
  fix d
  assume a: "drops s dropId = Some d" "hasStarted now d" "0 < stock d"
    "drop_save d (d\<lparr>stock := stock d - 1\<rparr>) = Inr (d\<lparr>stock := stock d - 1\<rparr>)"
    "valid_date (now + expirationDuration env)"
    "now < now + expirationDuration env"
  show ?thesis
    unfolding reserveItem_locked_unfold [OF a] by (simp add: emits_after_commit_emits)
qed

lemma reserveItem_emits_after_commit:
  "emits_after_commit False (actions (reserveItem env io now userId dropId s))"
  using reserveItem_runs_locked [of env io now userId dropId s]
    reserveItem_locked_emits_after_commit [of env io now userId dropId s]
  by (auto simp: rolled_back_def)

lemma cancelReservation_emits_after_commit:
  "emits_after_commit False (actions (cancelReservation io userId i s))"
  using cancelReservation_cases [of io userId i s]
proof (elim disjE exE conjE)
  fix e
  assume "cancelReservation io userId i s = rolled_back e s"
  then show ?thesis by (simp add: rolled_back_def)
next
  fix r
  assume found: "find (\<lambda>r. res_id r = i \<and> user_id r = userId \<and> status r = Active)
      (reservations s) = Some r" and none: "drops s (drop_id r) = None"
  show ?thesis unfolding cancelReservation_paths(2) [OF found none] by simp
next
  fix r d
  assume found: "find (\<lambda>r. res_id r = i \<and> user_id r = userId \<and> status r = Active)
      (reservations s) = Some r" and d: "drops s (drop_id r) = Some d"
    and saved: "drop_save d (d\<lparr>stock := stock d + 1\<rparr>) = Inr (d\<lparr>stock := stock d + 1\<rparr>)"
  show ?thesis
    unfolding cancelReservation_paths(4) [OF found d saved] by (simp add: emits_after_commit_emits)
qed

lemma completePurchase_emits_after_commit:
  "emits_after_commit False (actions (completePurchase io now userId i s))"
  using completePurchase_cases [of io now userId i s]
proof (elim disjE exE conjE)
  fix e
  assume "completePurchase io now userId i s = rolled_back e s"
  then show ?thesis by (simp add: rolled_back_def)
next
  fix r d
  assume found: "find (\<lambda>r. res_id r = i \<and> user_id r = userId \<and> status r = Active)
      (reservations s) = Some r" and rest: "\<not> isExpired now r" "drops s (drop_id r) = Some d"
    "0 \<le> price d"
  show ?thesis
    unfolding completePurchase_paths(5) [OF found rest] by (simp add: emits_after_commit_emits)
qed

text \<open>
  The three request handlers emit only after their transaction has committed: the log
  of each is either a rollback and nothing else, or the commit followed by the events.
\<close>

theorem handlers_emit_after_commit:
  "emits_after_commit False (actions (reserveItem env io now userId dropId s)) \<and>
   emits_after_commit False (actions (cancelReservation io userId i s)) \<and>
   emits_after_commit False (actions (completePurchase io now userId i s))"
  by (intro conjI reserveItem_emits_after_commit cancelReservation_emits_after_commit
      completePurchase_emits_after_commit)

text \<open>
  Claim C9. Events are emitted only after the transaction has committed, never while
  it is open or after it rolled back. The expiration job emits \<^verbatim>\<open>stockUpdate\<close> and
  \<^verbatim>\<open>reservationExpired\<close> inside its second loop, before \<^verbatim>\<open>transaction.commit()\<close>. On the
  second example database at time 70000 it credits drop 1, emits both events for it,
  then the save of drop 2 throws and the run rolls back: the events announce a stock
  that was never committed. On the first example database the run commits, after the
  events.
\<close>

theorem processExpiredReservations_emits_early:
  "actions (processExpiredReservations True 70000 crowded) =
     [Emit (StockUpdate 1 1), Emit (ReservationExpired 1 1), Rollback] \<and>
   response (processExpiredReservations True 70000 crowded) = Inl stock_exceeds_initial \<and>
   db_after (processExpiredReservations True 70000 crowded) = crowded \<and>
   \<not> emits_after_commit False (actions (processExpiredReservations True 70000 crowded)) \<and>
   actions (processExpiredReservations True 70000 shop) =
     [Emit (StockUpdate 1 2), Emit (ReservationExpired 1 1), Commit] \<and>
   \<not> emits_after_commit False (actions (processExpiredReservations True 70000 shop))"
proof -
  have a: "processExpiredReservations True 70000 crowded =
     \<lparr>response = Inl stock_exceeds_initial, db_after = crowded,
      actions = [Emit (StockUpdate 1 1), Emit (ReservationExpired 1 1), Rollback]\<rparr>"
    by (simp add: processExpiredReservations_def crowded_def due_def DATETIME_def set_status_def
        drop_save_def validate_changed_def validate_stock_def beforeUpdate_def emits_def)
  have b: "actions (processExpiredReservations True 70000 shop) =
     [Emit (StockUpdate 1 2), Emit (ReservationExpired 1 1), Commit]"
    by (simp add: processExpiredReservations_def shop_def due_def DATETIME_def set_status_def
        drop_save_def validate_changed_def validate_stock_def beforeUpdate_def emits_def
        jordan_def)
  show ?thesis unfolding a b by simp
qed

end
